theory Spec2Isabelle
  imports Main "HOL-Library.Word"
begin

unbundle bit_operations_syntax

section \<open>Machine types and the bus\<close>

text \<open>
  The library is written against the Arduino core: \<open>uint8_t\<close>, \<open>int8_t\<close> and
  \<open>uint16_t\<close> are words of that width. An \<open>int8_t\<close> is an 8-bit word that is read
  with \<open>sint\<close>; converting between \<open>int8_t\<close> and \<open>uint8_t\<close> keeps the bits.
\<close>

type_synonym u8 = "8 word"
type_synonym s8 = "8 word"
type_synonym u16 = "16 word"
type_synonym u32 = "32 word"

text \<open>
  A pointer argument \<open>T *data\<close> that is indexed is the memory around it: a function
  from the offset (the value of the index expression, an \<open>int\<close> after promotion) to
  the cell. A pointer that is only dereferenced (\<open>*data\<close>) is the cell's content,
  passed in and returned.
\<close>

type_synonym 'a buffer = "int \<Rightarrow> 'a"

text \<open>\<open>SPISettings\<close> of the Arduino SPI library: clock, bit order, data mode.\<close>

record SPISettings =
  clock :: u32
  bitOrder :: u8
  dataMode :: u8

datatype level = LOW | HIGH

text \<open>
  What the library does to the outside world, in the order it does it. A transfer
  records the byte sent and the byte received.
\<close>

datatype event =
    PinModeOutput u8
  | SPI_begin
  | BeginTransaction SPISettings
  | EndTransaction
  | DigitalWrite u8 level
  | Transfer u8 u8

text \<open>
  The static members of class \<open>SPIdev\<close> (SPIdev.h, lines 56-58 and 88), and the
  events on the bus so far.
\<close>

record spidev =
  slave :: u8
  dataOrder :: u8
  settings :: SPISettings
  readTimeout :: u16
  wire :: "event list"

text \<open>
  The attached device: the byte it answers to an outgoing byte, given everything that
  happened on the bus before. \<open>SPI.transfer\<close> always returns.
\<close>

type_synonym device = "event list \<Rightarrow> u8 \<Rightarrow> u8"

text \<open>
  \<open>READ\<close> is defined in SPIdev.h (line 51). \<open>MSBFIRST\<close> and \<open>LSBFIRST\<close> come from
  Arduino.h, which belongs to the Arduino core and not to this library; the cores
  define them as 1 and 0.
\<close>

definition READ :: u8 where
  "READ = 0x80"

definition MSBFIRST :: int where
  "MSBFIRST = 1"

definition LSBFIRST :: int where
  "LSBFIRST = 0"

definition emit :: "event \<Rightarrow> spidev \<Rightarrow> spidev" where
  "emit e s = s\<lparr>wire := wire s @ [e]\<rparr>"

definition pinMode_OUTPUT :: "u8 \<Rightarrow> spidev \<Rightarrow> spidev" where
  "pinMode_OUTPUT pin s = emit (PinModeOutput pin) s"

definition SPI_begin_call :: "spidev \<Rightarrow> spidev" where
  "SPI_begin_call s = emit SPI_begin s"

definition SPI_beginTransaction :: "SPISettings \<Rightarrow> spidev \<Rightarrow> spidev" where
  "SPI_beginTransaction cfg s = emit (BeginTransaction cfg) s"

definition SPI_endTransaction :: "spidev \<Rightarrow> spidev" where
  "SPI_endTransaction s = emit EndTransaction s"

definition digitalWrite :: "u8 \<Rightarrow> level \<Rightarrow> spidev \<Rightarrow> spidev" where
  "digitalWrite pin lv s = emit (DigitalWrite pin lv) s"

definition SPI_transfer :: "device \<Rightarrow> u8 \<Rightarrow> spidev \<Rightarrow> u8 \<times> spidev" where
  "SPI_transfer dev out s = (let r = dev (wire s) out in (r, emit (Transfer out r) s))"

text \<open>The events a call added to the bus, and the bytes sent among them.\<close>

definition emitted :: "spidev \<Rightarrow> spidev \<Rightarrow> event list" where
  "emitted s s' = drop (length (wire s)) (wire s')"

fun mosi :: "event list \<Rightarrow> u8 list" where
  "mosi [] = []"
| "mosi (Transfer out r # es) = out # mosi es"
| "mosi (e # es) = mosi es"

fun miso :: "event list \<Rightarrow> u8 list" where
  "miso [] = []"
| "miso (Transfer out r # es) = r # miso es"
| "miso (e # es) = miso es"

fun select_levels :: "event list \<Rightarrow> level list" where
  "select_levels [] = []"
| "select_levels (DigitalWrite pin lv # es) = lv # select_levels es"
| "select_levels (e # es) = select_levels es"

section \<open>The constructor\<close>

text \<open>
  SPIdev.cpp, lines 40-50. The parameter is called \<open>settings\<close> as the static member
  is, so inside the constructor the name is the parameter: \<open>settings = settings;\<close>
  assigns the parameter to itself. \<open>slavePin\<close> is an \<open>int8_t\<close> stored in a
  \<open>uint8_t\<close>.
\<close>

definition SPIdev :: "s8 \<Rightarrow> SPISettings \<Rightarrow> u8 \<Rightarrow> spidev \<Rightarrow> spidev" where
  "SPIdev slavePin settings_param bitOrder_param s =
     (let s = s\<lparr>slave := slavePin\<rparr>;
          s = pinMode_OUTPUT (slave s) s;
          s = SPI_begin_call s;
          settings_param = settings_param;
          s = s\<lparr>dataOrder := bitOrder_param\<rparr>
      in s)"

section \<open>Buffer-level operations\<close>

text \<open>
  \<open>SPIDEV_SERIAL_DEBUG\<close> is not defined (SPIdev.h, line 42), so none of the
  \<open>Serial.print\<close> blocks is compiled.

  \<open>readBytes\<close> (lines 149-188) counts with an \<open>int8_t\<close> against a \<open>uint8_t\<close>
  length; both are promoted to \<open>int\<close> for the comparison, and the increment wraps
  from 127 to -128. The loop may therefore run forever, so it is run for at most \<open>n\<close>
  iterations: the first component of the result says whether the loop was left, and
  the state is the one reached in either case.
\<close>

fun readBytes_loop ::
  "nat \<Rightarrow> device \<Rightarrow> u8 \<Rightarrow> s8 \<Rightarrow> u8 buffer \<Rightarrow> spidev \<Rightarrow> bool \<times> s8 \<times> u8 buffer \<times> spidev" where
  "readBytes_loop 0 dev len count data s =
     (if sint count < uint len then (False, count, data, s) else (True, count, data, s))"
| "readBytes_loop (Suc n) dev len count data s =
     (if sint count < uint len then
        (let (r, s) = SPI_transfer dev 0x00 s;
             data = data(sint count := r)
         in readBytes_loop n dev len (count + 1) data s)
      else (True, count, data, s))"

text \<open>
  The result of a read: the returned count (\<open>None\<close> while the call has not
  returned), the buffer, and the state.
\<close>

definition readBytes ::
  "nat \<Rightarrow> device \<Rightarrow> u8 \<Rightarrow> u8 \<Rightarrow> u8 buffer \<Rightarrow> spidev \<Rightarrow> s8 option \<times> u8 buffer \<times> spidev" where
  "readBytes n dev regAddr len data s =
     (let count = 0;
          s = SPI_beginTransaction (settings s) s;
          s = digitalWrite (slave s) LOW s;
          (_, s) = SPI_transfer dev (regAddr OR READ) s;
          (left, count, data, s) = readBytes_loop n dev len count data s
      in if left then
           (let s = digitalWrite (slave s) HIGH s;
                s = SPI_endTransaction s
            in (Some count, data, s))
         else (None, data, s))"

text \<open>
  \<open>readWords\<close> (lines 196-247). \<open>bool msb = dataOrder\<close> is true for a non-zero
  \<open>dataOrder\<close>; \<open>msb == MSBFIRST\<close> compares the promoted bool with the macro;
  \<open>msb = LSBFIRST\<close> and \<open>msb = MSBFIRST\<close> convert the macro to bool.
\<close>

fun readWords_loop ::
  "nat \<Rightarrow> device \<Rightarrow> u8 \<Rightarrow> s8 \<Rightarrow> bool \<Rightarrow> u16 buffer \<Rightarrow> spidev
     \<Rightarrow> bool \<times> s8 \<times> u16 buffer \<times> spidev" where
  "readWords_loop 0 dev len count msb data s =
     (if sint count < uint len then (False, count, data, s) else (True, count, data, s))"
| "readWords_loop (Suc n) dev len count msb data s =
     (if sint count < uint len then
        (if of_bool msb = MSBFIRST then
           (let (r, s) = SPI_transfer dev 0x00 s;
                data = data(sint count := push_bit 8 (ucast r));
                msb = (LSBFIRST \<noteq> 0)
            in readWords_loop n dev len count msb data s)
         else
           (let (r, s) = SPI_transfer dev 0x00 s;
                data = data(sint count := data (sint count) OR ucast r);
                count = count + 1;
                msb = (MSBFIRST \<noteq> 0)
            in readWords_loop n dev len count msb data s))
      else (True, count, data, s))"

definition readWords ::
  "nat \<Rightarrow> device \<Rightarrow> u8 \<Rightarrow> u8 \<Rightarrow> u16 buffer \<Rightarrow> spidev \<Rightarrow> s8 option \<times> u16 buffer \<times> spidev" where
  "readWords n dev regAddr len data s =
     (let count = 0;
          s = SPI_beginTransaction (settings s) s;
          s = digitalWrite (slave s) LOW s;
          msb = (dataOrder s \<noteq> 0);
          (_, s) = SPI_transfer dev (regAddr OR READ) s;
          (left, count, data, s) = readWords_loop n dev len count msb data s
      in if left then
           (let s = digitalWrite (slave s) HIGH s;
                s = SPI_endTransaction s
            in (Some count, data, s))
         else (None, data, s))"

text \<open>
  \<open>writeBytes\<close> (lines 355-392) and \<open>writeWords\<close> (lines 400-435) count with a
  \<open>uint8_t\<close> below a \<open>uint8_t\<close> length: these loops always end.
\<close>

function writeBytes_loop :: "device \<Rightarrow> u8 \<Rightarrow> u8 buffer \<Rightarrow> u8 \<Rightarrow> spidev \<Rightarrow> spidev" where
  "writeBytes_loop dev len data i s =
     (if i < len then
        (let (_, s) = SPI_transfer dev (data (uint i)) s
         in writeBytes_loop dev len data (i + 1) s)
      else s)"
  by pat_completeness auto
termination
proof (relation "measure (\<lambda>(dev, len, data, i, s). unat len - unat i)")
  fix dev :: device and len i :: u8 and x :: "u8 \<times> spidev" and s s' :: spidev
  assume "i < len"
  then have "unat len - unat (i + 1) < unat len - unat i"
    by unat_arith
  then show "((dev, len, data, i + 1, s'), (dev, len, data, i, s))
      \<in> measure (\<lambda>(dev, len, data, i, s). unat len - unat i)" for data :: "'z buffer"
    by simp
qed simp

declare writeBytes_loop.simps [simp del]

definition writeBytes :: "device \<Rightarrow> u8 \<Rightarrow> u8 \<Rightarrow> u8 buffer \<Rightarrow> spidev \<Rightarrow> bool \<times> spidev" where
  "writeBytes dev regAddr len data s =
     (let status = (0 :: u8);
          s = SPI_beginTransaction (settings s) s;
          s = digitalWrite (slave s) LOW s;
          (_, s) = SPI_transfer dev regAddr s;
          s = writeBytes_loop dev len data 0 s;
          s = digitalWrite (slave s) HIGH s;
          s = SPI_endTransaction s
      in (status = 0, s))"

function writeWords_loop :: "device \<Rightarrow> u8 \<Rightarrow> u16 buffer \<Rightarrow> u8 \<Rightarrow> spidev \<Rightarrow> spidev" where
  "writeWords_loop dev len data i s =
     (if i < len then
        (let (_, s) = SPI_transfer dev (ucast (drop_bit 8 (data (uint i)))) s;
             (_, s) = SPI_transfer dev (ucast (data (uint i))) s
         in writeWords_loop dev len data (i + 1) s)
      else s)"
  by pat_completeness auto
termination
proof (relation "measure (\<lambda>(dev, len, data, i, s). unat len - unat i)")
  fix dev :: device and len i :: u8 and x :: "u8 \<times> spidev" and s s' :: spidev
  assume "i < len"
  then have "unat len - unat (i + 1) < unat len - unat i"
    by unat_arith
  then show "((dev, len, data, i + 1, s'), (dev, len, data, i, s))
      \<in> measure (\<lambda>(dev, len, data, i, s). unat len - unat i)" for data :: "'z buffer"
    by simp
qed simp

declare writeWords_loop.simps [simp del]

definition writeWords :: "device \<Rightarrow> u8 \<Rightarrow> u8 \<Rightarrow> u16 buffer \<Rightarrow> spidev \<Rightarrow> bool \<times> spidev" where
  "writeWords dev regAddr len data s =
     (let status = (0 :: u8);
          s = SPI_beginTransaction (settings s) s;
          s = digitalWrite (slave s) LOW s;
          (_, s) = SPI_transfer dev regAddr s;
          s = writeWords_loop dev len data 0 s;
          s = digitalWrite (slave s) HIGH s;
          s = SPI_endTransaction s
      in (status = 0, s))"

section \<open>Single-unit operations\<close>

text \<open>Lines 130-141 and 336-347: the buffer operations with a count of 1.\<close>

definition readByte ::
  "nat \<Rightarrow> device \<Rightarrow> u8 \<Rightarrow> u8 buffer \<Rightarrow> spidev \<Rightarrow> s8 option \<times> u8 buffer \<times> spidev" where
  "readByte n dev regAddr data s = readBytes n dev regAddr 1 data s"

definition readWord ::
  "nat \<Rightarrow> device \<Rightarrow> u8 \<Rightarrow> u16 buffer \<Rightarrow> spidev \<Rightarrow> s8 option \<times> u16 buffer \<times> spidev" where
  "readWord n dev regAddr data s = readWords n dev regAddr 1 data s"

text \<open>
  \<open>writeByte\<close> and \<open>writeWord\<close> pass the address of their own parameter, a
  buffer whose cell 0 holds the value; with a count of 1 no other cell is read.
\<close>

definition writeByte :: "device \<Rightarrow> u8 \<Rightarrow> u8 \<Rightarrow> spidev \<Rightarrow> bool \<times> spidev" where
  "writeByte dev regAddr data s = writeBytes dev regAddr 1 (\<lambda>_. data) s"

definition writeWord :: "device \<Rightarrow> u8 \<Rightarrow> u16 \<Rightarrow> spidev \<Rightarrow> bool \<times> spidev" where
  "writeWord dev regAddr data s = writeWords dev regAddr 1 (\<lambda>_. data) s"

section \<open>Bit-level operations\<close>

text \<open>
  Each of these declares a local \<open>b\<close> or \<open>w\<close> without initialising it and passes
  its address to the read. The value it holds before the read is a parameter of the
  model, the last one before the state, named as the local is.

  The masks are computed in \<open>int\<close>, as the promotion rules of C++ have it, and the
  assignment keeps the low bits of the unit. A shift of an \<open>int\<close> by a negative count,
  or by a count of the width of \<open>int\<close> or more, is undefined behaviour; \<open>int\<close> is
  taken as 32 bits wide, as on the 32-bit Arduino cores (where it has 16 bits the
  counts from 16 on are outside the language's rules as well). An operation that
  reaches such a shift has the result \<open>Undefined_shift\<close> and nothing more is said of
  it; for the counts 0 to 31 the shifts are those of the integers.
\<close>

datatype fault = Undefined_shift

definition shift_defined :: "int \<Rightarrow> bool" where
  "shift_defined k \<longleftrightarrow> 0 \<le> k \<and> k < 32"

definition readBit ::
  "nat \<Rightarrow> device \<Rightarrow> u8 \<Rightarrow> u8 \<Rightarrow> u8 \<Rightarrow> u8 \<Rightarrow> spidev \<Rightarrow> fault + s8 option \<times> u8 \<times> spidev" where
  "readBit n dev regAddr bitNum data b s =
     (case readByte n dev regAddr (\<lambda>_. b) s of
        (None, mem, s) \<Rightarrow> Inr (None, data, s)
      | (Some count, mem, s) \<Rightarrow>
          if shift_defined (uint bitNum) then
            (let b = mem 0;
                 data = b AND word_of_int (push_bit (unat bitNum) 1)
             in Inr (Some count, data, s))
          else Inl Undefined_shift)"

definition readBitW ::
  "nat \<Rightarrow> device \<Rightarrow> u8 \<Rightarrow> u8 \<Rightarrow> u16 \<Rightarrow> u16 \<Rightarrow> spidev \<Rightarrow> fault + s8 option \<times> u16 \<times> spidev" where
  "readBitW n dev regAddr bitNum data b s =
     (case readWord n dev regAddr (\<lambda>_. b) s of
        (None, mem, s) \<Rightarrow> Inr (None, data, s)
      | (Some count, mem, s) \<Rightarrow>
          if shift_defined (uint bitNum) then
            (let b = mem 0;
                 data = b AND word_of_int (push_bit (unat bitNum) 1)
             in Inr (Some count, data, s))
          else Inl Undefined_shift)"

definition readBits ::
  "nat \<Rightarrow> device \<Rightarrow> u8 \<Rightarrow> u8 \<Rightarrow> u8 \<Rightarrow> u8 \<Rightarrow> u8 \<Rightarrow> spidev
     \<Rightarrow> fault + s8 option \<times> u8 \<times> spidev" where
  "readBits n dev regAddr bitStart len data b s =
     (case readByte n dev regAddr (\<lambda>_. b) s of
        (None, mem, s) \<Rightarrow> Inr (None, data, s)
      | (Some count, mem, s) \<Rightarrow>
          (let b = mem 0 in
           if count \<noteq> 0 then
             (if shift_defined (uint len) \<and> shift_defined (uint bitStart - uint len + 1) then
                (let shift = nat (uint bitStart - uint len + 1);
                     mask = (word_of_int (push_bit shift (push_bit (unat len) 1 - 1)) :: u8);
                     b = b AND mask;
                     b = drop_bit shift b;
                     data = b
                 in Inr (Some count, data, s))
              else Inl Undefined_shift)
           else Inr (Some count, data, s)))"

definition readBitsW ::
  "nat \<Rightarrow> device \<Rightarrow> u8 \<Rightarrow> u8 \<Rightarrow> u8 \<Rightarrow> u16 \<Rightarrow> u16 \<Rightarrow> spidev
     \<Rightarrow> fault + s8 option \<times> u16 \<times> spidev" where
  "readBitsW n dev regAddr bitStart len data w s =
     (case readWord n dev regAddr (\<lambda>_. w) s of
        (None, mem, s) \<Rightarrow> Inr (None, data, s)
      | (Some count, mem, s) \<Rightarrow>
          (let w = mem 0 in
           if count \<noteq> 0 then
             (if shift_defined (uint len) \<and> shift_defined (uint bitStart - uint len + 1) then
                (let shift = nat (uint bitStart - uint len + 1);
                     mask = (word_of_int (push_bit shift (push_bit (unat len) 1 - 1)) :: u16);
                     w = w AND mask;
                     w = drop_bit shift w;
                     data = w
                 in Inr (Some count, data, s))
              else Inl Undefined_shift)
           else Inr (Some count, data, s)))"

text \<open>
  The writes (lines 255-329) start with a read. Each is the read followed by the rest
  of its body, a function of what the read returned: its count (\<open>None\<close> while it has
  not returned, and then the write has not returned either), the memory at the local,
  and the state. \<open>writeBit\<close> and \<open>writeBitW\<close> drop the count.
\<close>

definition writeBit_rest ::
  "device \<Rightarrow> u8 \<Rightarrow> u8 \<Rightarrow> u8 \<Rightarrow> s8 option \<times> u8 buffer \<times> spidev
     \<Rightarrow> fault + bool option \<times> spidev" where
  "writeBit_rest dev regAddr bitNum data read =
     (case read of
        (None, mem, s) \<Rightarrow> Inr (None, s)
      | (Some _, mem, s) \<Rightarrow>
          if shift_defined (uint bitNum) then
            (let b = mem 0;
                 b = (if data \<noteq> 0 then b OR word_of_int (push_bit (unat bitNum) 1)
                      else b AND word_of_int (NOT (push_bit (unat bitNum) 1)));
                 (r, s) = writeByte dev regAddr b s
             in Inr (Some r, s))
          else Inl Undefined_shift)"

definition writeBit ::
  "nat \<Rightarrow> device \<Rightarrow> u8 \<Rightarrow> u8 \<Rightarrow> u8 \<Rightarrow> u8 \<Rightarrow> spidev \<Rightarrow> fault + bool option \<times> spidev" where
  "writeBit n dev regAddr bitNum data b s =
     writeBit_rest dev regAddr bitNum data (readByte n dev regAddr (\<lambda>_. b) s)"

definition writeBitW_rest ::
  "device \<Rightarrow> u8 \<Rightarrow> u8 \<Rightarrow> u16 \<Rightarrow> s8 option \<times> u16 buffer \<times> spidev
     \<Rightarrow> fault + bool option \<times> spidev" where
  "writeBitW_rest dev regAddr bitNum data read =
     (case read of
        (None, mem, s) \<Rightarrow> Inr (None, s)
      | (Some _, mem, s) \<Rightarrow>
          if shift_defined (uint bitNum) then
            (let w = mem 0;
                 w = (if data \<noteq> 0 then w OR word_of_int (push_bit (unat bitNum) 1)
                      else w AND word_of_int (NOT (push_bit (unat bitNum) 1)));
                 (r, s) = writeWord dev regAddr w s
             in Inr (Some r, s))
          else Inl Undefined_shift)"

definition writeBitW ::
  "nat \<Rightarrow> device \<Rightarrow> u8 \<Rightarrow> u8 \<Rightarrow> u16 \<Rightarrow> u16 \<Rightarrow> spidev \<Rightarrow> fault + bool option \<times> spidev" where
  "writeBitW n dev regAddr bitNum data w s =
     writeBitW_rest dev regAddr bitNum data (readWord n dev regAddr (\<lambda>_. w) s)"

definition writeBits_rest ::
  "device \<Rightarrow> u8 \<Rightarrow> u8 \<Rightarrow> u8 \<Rightarrow> u8 \<Rightarrow> s8 option \<times> u8 buffer \<times> spidev
     \<Rightarrow> fault + bool option \<times> spidev" where
  "writeBits_rest dev regAddr bitStart len data read =
     (case read of
        (None, mem, s) \<Rightarrow> Inr (None, s)
      | (Some count, mem, s) \<Rightarrow>
          (let b = mem 0 in
           if count \<noteq> 0 then
             (if shift_defined (uint len) \<and> shift_defined (uint bitStart - uint len + 1) then
                (let shift = nat (uint bitStart - uint len + 1);
                     mask = (word_of_int (push_bit shift (push_bit (unat len) 1 - 1)) :: u8);
                     data = push_bit shift data;
                     data = data AND mask;
                     b = b AND NOT mask;
                     b = b OR data;
                     (r, s) = writeByte dev regAddr b s
                 in Inr (Some r, s))
              else Inl Undefined_shift)
           else Inr (Some False, s)))"

definition writeBits ::
  "nat \<Rightarrow> device \<Rightarrow> u8 \<Rightarrow> u8 \<Rightarrow> u8 \<Rightarrow> u8 \<Rightarrow> u8 \<Rightarrow> spidev \<Rightarrow> fault + bool option \<times> spidev" where
  "writeBits n dev regAddr bitStart len data b s =
     writeBits_rest dev regAddr bitStart len data (readByte n dev regAddr (\<lambda>_. b) s)"

definition writeBitsW_rest ::
  "device \<Rightarrow> u8 \<Rightarrow> u8 \<Rightarrow> u8 \<Rightarrow> u16 \<Rightarrow> s8 option \<times> u16 buffer \<times> spidev
     \<Rightarrow> fault + bool option \<times> spidev" where
  "writeBitsW_rest dev regAddr bitStart len data read =
     (case read of
        (None, mem, s) \<Rightarrow> Inr (None, s)
      | (Some count, mem, s) \<Rightarrow>
          (let w = mem 0 in
           if count \<noteq> 0 then
             (if shift_defined (uint len) \<and> shift_defined (uint bitStart - uint len + 1) then
                (let shift = nat (uint bitStart - uint len + 1);
                     mask = (word_of_int (push_bit shift (push_bit (unat len) 1 - 1)) :: u16);
                     data = push_bit shift data;
                     data = data AND mask;
                     w = w AND NOT mask;
                     w = w OR data;
                     (r, s) = writeWord dev regAddr w s
                 in Inr (Some r, s))
              else Inl Undefined_shift)
           else Inr (Some False, s)))"

definition writeBitsW ::
  "nat \<Rightarrow> device \<Rightarrow> u8 \<Rightarrow> u8 \<Rightarrow> u8 \<Rightarrow> u16 \<Rightarrow> u16 \<Rightarrow> spidev \<Rightarrow> fault + bool option \<times> spidev" where
  "writeBitsW n dev regAddr bitStart len data w s =
     writeBitsW_rest dev regAddr bitStart len data (readWord n dev regAddr (\<lambda>_. w) s)"

section \<open>The overloads with a device address\<close>

text \<open>
  Lines 445-493. C++ tells them from the operations above by their parameter lists;
  here they carry the suffix \<open>_devAddr\<close>. A caller that leaves \<open>timeout\<close> out
  passes \<open>readTimeout\<close>.
\<close>

definition readBit_devAddr ::
  "nat \<Rightarrow> device \<Rightarrow> u8 \<Rightarrow> u8 \<Rightarrow> u8 \<Rightarrow> u8 \<Rightarrow> u16 \<Rightarrow> u8 \<Rightarrow> spidev \<Rightarrow> fault + s8 option \<times> u8 \<times> spidev" where
  "readBit_devAddr n dev devAddr regAddr bitNum data timeout b s =
     readBit n dev regAddr bitNum data b s"

definition readBitW_devAddr ::
  "nat \<Rightarrow> device \<Rightarrow> u8 \<Rightarrow> u8 \<Rightarrow> u8 \<Rightarrow> u16 \<Rightarrow> u16 \<Rightarrow> u16 \<Rightarrow> spidev \<Rightarrow> fault + s8 option \<times> u16 \<times> spidev" where
  "readBitW_devAddr n dev devAddr regAddr bitNum data timeout b s =
     readBitW n dev regAddr bitNum data b s"

definition readBits_devAddr ::
  "nat \<Rightarrow> device \<Rightarrow> u8 \<Rightarrow> u8 \<Rightarrow> u8 \<Rightarrow> u8 \<Rightarrow> u8 \<Rightarrow> u16 \<Rightarrow> u8 \<Rightarrow> spidev
     \<Rightarrow> fault + s8 option \<times> u8 \<times> spidev" where
  "readBits_devAddr n dev devAddr regAddr bitStart len data timeout b s =
     readBits n dev regAddr bitStart len data b s"

definition readBitsW_devAddr ::
  "nat \<Rightarrow> device \<Rightarrow> u8 \<Rightarrow> u8 \<Rightarrow> u8 \<Rightarrow> u8 \<Rightarrow> u16 \<Rightarrow> u16 \<Rightarrow> u16 \<Rightarrow> spidev
     \<Rightarrow> fault + s8 option \<times> u16 \<times> spidev" where
  "readBitsW_devAddr n dev devAddr regAddr bitStart len data timeout w s =
     readBitsW n dev regAddr bitStart len data w s"

definition readByte_devAddr ::
  "nat \<Rightarrow> device \<Rightarrow> u8 \<Rightarrow> u8 \<Rightarrow> u8 buffer \<Rightarrow> u16 \<Rightarrow> spidev \<Rightarrow> s8 option \<times> u8 buffer \<times> spidev" where
  "readByte_devAddr n dev devAddr regAddr data timeout s = readByte n dev regAddr data s"

definition readWord_devAddr ::
  "nat \<Rightarrow> device \<Rightarrow> u8 \<Rightarrow> u8 \<Rightarrow> u16 buffer \<Rightarrow> u16 \<Rightarrow> spidev \<Rightarrow> s8 option \<times> u16 buffer \<times> spidev" where
  "readWord_devAddr n dev devAddr regAddr data timeout s = readWord n dev regAddr data s"

definition readBytes_devAddr ::
  "nat \<Rightarrow> device \<Rightarrow> u8 \<Rightarrow> u8 \<Rightarrow> u8 \<Rightarrow> u8 buffer \<Rightarrow> u16 \<Rightarrow> spidev
     \<Rightarrow> s8 option \<times> u8 buffer \<times> spidev" where
  "readBytes_devAddr n dev devAddr regAddr len data timeout s =
     readBytes n dev regAddr len data s"

definition readWords_devAddr ::
  "nat \<Rightarrow> device \<Rightarrow> u8 \<Rightarrow> u8 \<Rightarrow> u8 \<Rightarrow> u16 buffer \<Rightarrow> u16 \<Rightarrow> spidev
     \<Rightarrow> s8 option \<times> u16 buffer \<times> spidev" where
  "readWords_devAddr n dev devAddr regAddr len data timeout s =
     readWords n dev regAddr len data s"

definition writeBit_devAddr ::
  "nat \<Rightarrow> device \<Rightarrow> u8 \<Rightarrow> u8 \<Rightarrow> u8 \<Rightarrow> u8 \<Rightarrow> u8 \<Rightarrow> spidev \<Rightarrow> fault + bool option \<times> spidev" where
  "writeBit_devAddr n dev devAddr regAddr bitNum data b s =
     writeBit n dev regAddr bitNum data b s"

definition writeBitW_devAddr ::
  "nat \<Rightarrow> device \<Rightarrow> u8 \<Rightarrow> u8 \<Rightarrow> u8 \<Rightarrow> u16 \<Rightarrow> u16 \<Rightarrow> spidev \<Rightarrow> fault + bool option \<times> spidev" where
  "writeBitW_devAddr n dev devAddr regAddr bitNum data w s =
     writeBitW n dev regAddr bitNum data w s"

definition writeBits_devAddr ::
  "nat \<Rightarrow> device \<Rightarrow> u8 \<Rightarrow> u8 \<Rightarrow> u8 \<Rightarrow> u8 \<Rightarrow> u8 \<Rightarrow> u8 \<Rightarrow> spidev \<Rightarrow> fault + bool option \<times> spidev" where
  "writeBits_devAddr n dev devAddr regAddr bitStart len data b s =
     writeBits n dev regAddr bitStart len data b s"

definition writeBitsW_devAddr ::
  "nat \<Rightarrow> device \<Rightarrow> u8 \<Rightarrow> u8 \<Rightarrow> u8 \<Rightarrow> u8 \<Rightarrow> u16 \<Rightarrow> u16 \<Rightarrow> spidev \<Rightarrow> fault + bool option \<times> spidev" where
  "writeBitsW_devAddr n dev devAddr regAddr bitStart len data w s =
     writeBitsW n dev regAddr bitStart len data w s"

definition writeByte_devAddr :: "device \<Rightarrow> u8 \<Rightarrow> u8 \<Rightarrow> u8 \<Rightarrow> spidev \<Rightarrow> bool \<times> spidev" where
  "writeByte_devAddr dev devAddr regAddr data s = writeByte dev regAddr data s"

definition writeWord_devAddr :: "device \<Rightarrow> u8 \<Rightarrow> u8 \<Rightarrow> u16 \<Rightarrow> spidev \<Rightarrow> bool \<times> spidev" where
  "writeWord_devAddr dev devAddr regAddr data s = writeWord dev regAddr data s"

definition writeBytes_devAddr ::
  "device \<Rightarrow> u8 \<Rightarrow> u8 \<Rightarrow> u8 \<Rightarrow> u8 buffer \<Rightarrow> spidev \<Rightarrow> bool \<times> spidev" where
  "writeBytes_devAddr dev devAddr regAddr len data s = writeBytes dev regAddr len data s"

definition writeWords_devAddr ::
  "device \<Rightarrow> u8 \<Rightarrow> u8 \<Rightarrow> u8 \<Rightarrow> u16 buffer \<Rightarrow> spidev \<Rightarrow> bool \<times> spidev" where
  "writeWords_devAddr dev devAddr regAddr len data s = writeWords dev regAddr len data s"

section \<open>A register that reads back what was written\<close>

text \<open>
  The device of the round-trip law: one register. Selecting the chip makes it expect an
  address byte, whose bit 7 tells a read from a write; in a write every data byte is
  stored; every transfer is answered with the register's content.
\<close>

datatype phase = Idle | Address | Reading | Writing

fun register_step :: "phase \<times> u8 \<Rightarrow> event \<Rightarrow> phase \<times> u8" where
  "register_step (p, r) (DigitalWrite pin LOW) = (Address, r)"
| "register_step (p, r) (DigitalWrite pin HIGH) = (Idle, r)"
| "register_step (Address, r) (Transfer out i) = (if bit out 7 then Reading else Writing, r)"
| "register_step (Writing, r) (Transfer out i) = (Writing, out)"
| "register_step (p, r) e = (p, r)"

definition register_content :: "u8 \<Rightarrow> event list \<Rightarrow> u8" where
  "register_content r0 es = snd (foldl register_step (Idle, r0) es)"

definition register_device :: "u8 \<Rightarrow> device" where
  "register_device r0 es out = register_content r0 es"

section \<open>What a caller can observe\<close>

text \<open>
  Of a read: the returned count, the buffer and the bus events; of a write: the
  returned status and the bus events.
\<close>

definition observable_read :: "'r \<times> 'd \<times> spidev \<Rightarrow> 'r \<times> 'd \<times> event list" where
  "observable_read x = (fst x, fst (snd x), wire (snd (snd x)))"

definition observable_write :: "'r \<times> spidev \<Rightarrow> 'r \<times> event list" where
  "observable_write x = (fst x, wire (snd x))"

abbreviation (input) timeout_set :: "u16 \<Rightarrow> spidev \<Rightarrow> spidev" where
  "timeout_set t \<equiv> readTimeout_update (\<lambda>_. t)"


section \<open>Values for worked examples\<close>

text \<open>
  The default-constructed \<open>SPISettings\<close> of the Arduino core (4 MHz, MSB first,
  mode 0), the static members before any constructor ran on a silent bus, and a device
  that answers every byte with the same value.
\<close>

definition SPISettings_default :: SPISettings where
  "SPISettings_default = \<lparr>clock = 4000000, bitOrder = 1, dataMode = 0\<rparr>"

definition power_on :: spidev where
  "power_on = \<lparr>slave = 0, dataOrder = 0, settings = SPISettings_default,
     readTimeout = 0, wire = []\<rparr>"

definition answering :: "u8 \<Rightarrow> device" where
  "answering v es out = v"

text \<open>
  The words that \<open>readWords\<close> builds from the bytes it receives when each word starts
  with its high byte.
\<close>

fun words_of :: "u8 list \<Rightarrow> u16 list" where
  "words_of (hi # lo # rs) = (push_bit 8 (ucast hi) OR ucast lo) # words_of rs"
| "words_of rs = []"

section \<open>The bus trace of the loops\<close>


lemma wire_emit [simp]: "wire (emit e s) = wire s @ [e]"
  and slave_emit [simp]: "slave (emit e s) = slave s"
  and dataOrder_emit [simp]: "dataOrder (emit e s) = dataOrder s"
  and settings_emit [simp]: "settings (emit e s) = settings s"
  and readTimeout_emit [simp]: "readTimeout (emit e s) = readTimeout s"
  by (simp_all add: emit_def)

lemma SPI_transfer_eq:
  "SPI_transfer dev out s = (dev (wire s) out, emit (Transfer out (dev (wire s) out)) s)"
  by (simp add: SPI_transfer_def Let_def)

lemma emitted_append [simp]: "wire s' = wire s @ es \<Longrightarrow> emitted s s' = es"
  by (simp add: emitted_def)

lemma wire_unchanged: "\<exists>es. s = s\<lparr>wire := wire s @ es\<rparr>"
  by (rule exI [of _ "[]"]) simp

lemma readBytes_loop_wire:
  "\<exists>es. snd (snd (snd (readBytes_loop n dev len count data s))) = s\<lparr>wire := wire s @ es\<rparr>"
proof (induction n arbitrary: count data s)
  case 0
  show ?case by (simp add: wire_unchanged)
next
  case (Suc n)
  show ?case
  proof (cases "sint count < uint len")
    case True
    let ?s = "emit (Transfer 0 (dev (wire s) 0)) s"
    obtain es where "snd (snd (snd (readBytes_loop n dev len (count + 1)
        (data(sint count := dev (wire s) 0)) ?s))) = ?s\<lparr>wire := wire ?s @ es\<rparr>"
      using Suc.IH by blast
    with True show ?thesis by (auto simp: SPI_transfer_eq emit_def)
  next
    case False
    then show ?thesis by (simp add: wire_unchanged)
  qed
qed

lemma readWords_loop_wire:
  "\<exists>es. snd (snd (snd (readWords_loop n dev len count msb data s))) = s\<lparr>wire := wire s @ es\<rparr>"
proof (induction n arbitrary: count msb data s)
  case 0
  show ?case by (simp add: wire_unchanged)
next
  case (Suc n)
  show ?case
  proof (cases "sint count < uint len")
    case True
    let ?r = "dev (wire s) 0"
    let ?s = "emit (Transfer 0 ?r) s"
    have "\<exists>es. snd (snd (snd (readWords_loop n dev len c m d ?s))) = s\<lparr>wire := wire s @ es\<rparr>"
      for c m d
      using Suc.IH [of c m d ?s] by (auto simp: emit_def)
    with True show ?thesis by (simp add: SPI_transfer_eq Let_def)
  next
    case False
    then show ?thesis by (simp add: wire_unchanged)
  qed
qed

lemma writeBytes_loop_wire:
  "\<exists>es. writeBytes_loop dev len data i s = s\<lparr>wire := wire s @ es\<rparr>"
proof (induction dev len data i s rule: writeBytes_loop.induct)
  case (1 dev len data i s)
  show ?case
  proof (cases "i < len")
    case True
    let ?r = "dev (wire s) (data (uint i))"
    let ?s = "emit (Transfer (data (uint i)) ?r) s"
    have "\<exists>es. writeBytes_loop dev len data (i + 1) ?s = s\<lparr>wire := wire s @ es\<rparr>"
      using "1.IH" [OF True, of "(?r, ?s)" ?r ?s] by (auto simp: SPI_transfer_eq emit_def)
    with True show ?thesis
      by (subst writeBytes_loop.simps) (simp add: SPI_transfer_eq)
  next
    case False
    then show ?thesis by (subst writeBytes_loop.simps) (simp add: wire_unchanged)
  qed
qed

lemma writeWords_loop_wire:
  "\<exists>es. writeWords_loop dev len data i s = s\<lparr>wire := wire s @ es\<rparr>"
proof (induction dev len data i s rule: writeWords_loop.induct)
  case (1 dev len data i s)
  show ?case
  proof (cases "i < len")
    case True
    let ?hi = "ucast (drop_bit 8 (data (uint i))) :: u8"
    let ?lo = "ucast (data (uint i)) :: u8"
    let ?r1 = "dev (wire s) ?hi"
    let ?s1 = "emit (Transfer ?hi ?r1) s"
    let ?r2 = "dev (wire ?s1) ?lo"
    let ?s2 = "emit (Transfer ?lo ?r2) ?s1"
    have "\<exists>es. writeWords_loop dev len data (i + 1) ?s2 = s\<lparr>wire := wire s @ es\<rparr>"
      using "1.IH" [OF True, of "(?r1, ?s1)" ?r1 ?s1 "(?r2, ?s2)" ?r2 ?s2]
      by (auto simp: SPI_transfer_eq emit_def)
    with True show ?thesis
      by (subst writeWords_loop.simps) (simp add: SPI_transfer_eq)
  next
    case False
    then show ?thesis by (subst writeWords_loop.simps) (simp add: wire_unchanged)
  qed
qed


lemmas bus_defs = SPI_beginTransaction_def SPI_endTransaction_def digitalWrite_def

lemma readBytes_opening:
  "\<exists>r es. wire (snd (snd (readBytes n dev regAddr len data s))) =
     wire s @ BeginTransaction (settings s) # DigitalWrite (slave s) LOW #
       Transfer (regAddr OR 0x80) r # es"
proof -
  let ?s = "emit (DigitalWrite (slave s) LOW) (emit (BeginTransaction (settings s)) s)"
  let ?out = "regAddr OR 0x80"
  let ?s' = "emit (Transfer ?out (dev (wire ?s) ?out)) ?s"
  obtain es where "snd (snd (snd (readBytes_loop n dev len 0 data ?s'))) = ?s'\<lparr>wire := wire ?s' @ es\<rparr>"
    using readBytes_loop_wire by blast
  then show ?thesis
    by (cases "readBytes_loop n dev len 0 data ?s'")
       (simp add: readBytes_def bus_defs SPI_transfer_eq READ_def)
qed

lemma readWords_opening:
  "\<exists>r es. wire (snd (snd (readWords n dev regAddr len data s))) =
     wire s @ BeginTransaction (settings s) # DigitalWrite (slave s) LOW #
       Transfer (regAddr OR 0x80) r # es"
proof -
  let ?s = "emit (DigitalWrite (slave s) LOW) (emit (BeginTransaction (settings s)) s)"
  let ?out = "regAddr OR 0x80"
  let ?s' = "emit (Transfer ?out (dev (wire ?s) ?out)) ?s"
  obtain es where "snd (snd (snd
      (readWords_loop n dev len 0 (dataOrder s \<noteq> 0) data ?s'))) = ?s'\<lparr>wire := wire ?s' @ es\<rparr>"
    using readWords_loop_wire by blast
  then show ?thesis
    by (cases "readWords_loop n dev len 0 (dataOrder s \<noteq> 0) data ?s'")
       (simp add: readWords_def bus_defs SPI_transfer_eq READ_def)
qed

lemma writeBytes_opening:
  "\<exists>r es. wire (snd (writeBytes dev regAddr len data s)) =
     wire s @ BeginTransaction (settings s) # DigitalWrite (slave s) LOW #
       Transfer regAddr r # es"
proof -
  let ?s = "emit (DigitalWrite (slave s) LOW) (emit (BeginTransaction (settings s)) s)"
  let ?s' = "emit (Transfer regAddr (dev (wire ?s) regAddr)) ?s"
  obtain es where "writeBytes_loop dev len data 0 ?s' = ?s'\<lparr>wire := wire ?s' @ es\<rparr>"
    using writeBytes_loop_wire by blast
  then show ?thesis
    by (simp add: writeBytes_def bus_defs SPI_transfer_eq Let_def)
qed

lemma writeWords_opening:
  "\<exists>r es. wire (snd (writeWords dev regAddr len data s)) =
     wire s @ BeginTransaction (settings s) # DigitalWrite (slave s) LOW #
       Transfer regAddr r # es"
proof -
  let ?s = "emit (DigitalWrite (slave s) LOW) (emit (BeginTransaction (settings s)) s)"
  let ?s' = "emit (Transfer regAddr (dev (wire ?s) regAddr)) ?s"
  obtain es where "writeWords_loop dev len data 0 ?s' = ?s'\<lparr>wire := wire ?s' @ es\<rparr>"
    using writeWords_loop_wire by blast
  then show ?thesis
    by (simp add: writeWords_def bus_defs SPI_transfer_eq Let_def)
qed

lemma discriminator: "regAddr \<le> (0x7F :: u8) \<Longrightarrow> bit (regAddr OR 0x80) 7 \<and> \<not> bit regAddr 7"
proof -
  assume "regAddr \<le> 0x7F"
  then have "regAddr < 2 ^ 7" by unat_arith
  then have "\<not> bit regAddr 7"
    by (metis bit_take_bit_iff less_irrefl less_mask_eq take_bit_eq_mask)
  moreover have "bit (0x80 :: u8) 7" by simp
  ultimately show ?thesis by (simp add: bit_or_iff)
qed

section \<open>The address byte\<close>

text \<open>
  C1. For every register address in 0-127 and every requested count, a call of
  \<open>readBytes\<close> or \<open>readWords\<close> acquires the bus, selects the chip and sends
  \<open>regAddr OR 0x80\<close> as its first byte; \<open>writeBytes\<close> and \<open>writeWords\<close> send
  \<open>regAddr\<close> itself. This holds of the events of a read after any number \<open>n\<close> of
  loop iterations, so also of a read that never returns. For such an address bit 7 of
  the byte sent tells the read from the write.
\<close>

theorem address_byte_first:
  assumes "regAddr \<le> 0x7F"
  shows "(\<exists>r es. emitted s (snd (snd (readBytes n dev regAddr len data s))) =
            BeginTransaction (settings s) # DigitalWrite (slave s) LOW #
              Transfer (regAddr OR 0x80) r # es) \<and>
         (\<exists>r es. emitted s (snd (snd (readWords n dev regAddr len dataW s))) =
            BeginTransaction (settings s) # DigitalWrite (slave s) LOW #
              Transfer (regAddr OR 0x80) r # es) \<and>
         (\<exists>r es. emitted s (snd (writeBytes dev regAddr len data s)) =
            BeginTransaction (settings s) # DigitalWrite (slave s) LOW #
              Transfer regAddr r # es) \<and>
         (\<exists>r es. emitted s (snd (writeWords dev regAddr len dataW s)) =
            BeginTransaction (settings s) # DigitalWrite (slave s) LOW #
              Transfer regAddr r # es) \<and>
         bit (regAddr OR 0x80) 7 \<and> \<not> bit regAddr 7"
proof -
  have rb: "\<exists>r es. emitted s (snd (snd (readBytes n dev regAddr len data s))) =
            BeginTransaction (settings s) # DigitalWrite (slave s) LOW #
              Transfer (regAddr OR 0x80) r # es"
    using readBytes_opening [of n dev regAddr len data s] by (metis emitted_append)
  have rw: "\<exists>r es. emitted s (snd (snd (readWords n dev regAddr len dataW s))) =
            BeginTransaction (settings s) # DigitalWrite (slave s) LOW #
              Transfer (regAddr OR 0x80) r # es"
    using readWords_opening [of n dev regAddr len dataW s] by (metis emitted_append)
  have wb: "\<exists>r es. emitted s (snd (writeBytes dev regAddr len data s)) =
            BeginTransaction (settings s) # DigitalWrite (slave s) LOW #
              Transfer regAddr r # es"
    using writeBytes_opening [of dev regAddr len data s] by (metis emitted_append)
  have ww: "\<exists>r es. emitted s (snd (writeWords dev regAddr len dataW s)) =
            BeginTransaction (settings s) # DigitalWrite (slave s) LOW #
              Transfer regAddr r # es"
    using writeWords_opening [of dev regAddr len dataW s] by (metis emitted_append)
  from rb rw wb ww discriminator [OF assms] show ?thesis by blast
qed


theorem address_byte_first_witness:
  "(0x10 :: u8) \<le> 0x7F \<and>
   (\<exists>r es. emitted power_on (snd (snd (readBytes 2 (answering 0) 0x10 2 (\<lambda>_. 0) power_on))) =
      BeginTransaction SPISettings_default # DigitalWrite 0 LOW # Transfer 0x90 r # es) \<and>
   (\<exists>r es. emitted power_on (snd (writeWords (answering 0) 0x10 2 (\<lambda>_. 0) power_on)) =
      BeginTransaction SPISettings_default # DigitalWrite 0 LOW # Transfer 0x10 r # es)"
proof -
  have h: "(0x10 :: u8) \<le> 0x7F" by simp
  have s: "settings power_on = SPISettings_default" "slave power_on = 0"
    by (simp_all add: power_on_def)
  have o: "(0x10 :: u8) OR 0x80 = 0x90" by simp
  show ?thesis
    using address_byte_first [OF h, of power_on 2 "answering 0" 2 "\<lambda>_. 0" "\<lambda>_. 0"]
    unfolding s o by (intro conjI h) blast+
qed

section \<open>The bus trace of a write\<close>


lemma mosi_append [simp]: "mosi (es @ fs) = mosi es @ mosi fs"
  by (induction es rule: mosi.induct) simp_all

lemma miso_append [simp]: "miso (es @ fs) = miso es @ miso fs"
  by (induction es rule: miso.induct) simp_all

lemma select_levels_append [simp]: "select_levels (es @ fs) = select_levels es @ select_levels fs"
  by (induction es rule: select_levels.induct) simp_all

lemma unat_succ_below: "(i :: u8) < len \<Longrightarrow> unat (i + 1) = Suc (unat i)"
  by unat_arith

lemma writeWords_loop_trace:
  "\<exists>es. writeWords_loop dev len data i s = s\<lparr>wire := wire s @ es\<rparr> \<and>
        mosi es = concat (map (\<lambda>k. [ucast (drop_bit 8 (data (int k))), ucast (data (int k))])
                    [unat i..<unat len]) \<and>
        length es = 2 * (unat len - unat i)"
proof (induction dev len data i s rule: writeWords_loop.induct)
  case (1 dev len data i s)
  show ?case
  proof (cases "i < len")
    case True
    let ?hi = "ucast (drop_bit 8 (data (uint i))) :: u8"
    let ?lo = "ucast (data (uint i)) :: u8"
    let ?r1 = "dev (wire s) ?hi"
    let ?s1 = "emit (Transfer ?hi ?r1) s"
    let ?r2 = "dev (wire ?s1) ?lo"
    let ?s2 = "emit (Transfer ?lo ?r2) ?s1"
    from True have lt: "unat i < unat len" by (simp add: word_less_nat_alt)
    have upt: "[unat i..<unat len] = unat i # [unat (i + 1)..<unat len]"
      using lt by (simp add: upt_conv_Cons unat_succ_below [OF True])
    obtain es where es: "writeWords_loop dev len data (i + 1) ?s2 = ?s2\<lparr>wire := wire ?s2 @ es\<rparr>"
      "mosi es = concat (map (\<lambda>k. [ucast (drop_bit 8 (data (int k))), ucast (data (int k))])
                    [unat (i + 1)..<unat len])"
      "length es = 2 * (unat len - unat (i + 1))"
      using "1.IH" [OF True, of "(?r1, ?s1)" ?r1 ?s1 "(?r2, ?s2)" ?r2 ?s2]
      by (auto simp: SPI_transfer_eq)
    let ?es = "Transfer ?hi ?r1 # Transfer ?lo ?r2 # es"
    have "writeWords_loop dev len data i s = s\<lparr>wire := wire s @ ?es\<rparr>"
      using True es(1) by (subst writeWords_loop.simps) (simp add: SPI_transfer_eq emit_def)
    moreover have "mosi ?es = concat (map (\<lambda>k. [ucast (drop_bit 8 (data (int k))), ucast (data (int k))])
                    [unat i..<unat len])"
      unfolding upt using es(2) by simp
    moreover have "length ?es = 2 * (unat len - unat i)"
      using es(3) lt by (simp add: unat_succ_below [OF True])
    ultimately show ?thesis by blast
  next
    case False
    then have "\<not> unat i < unat len" by (simp add: word_less_nat_alt)
    with False show ?thesis
      by (subst writeWords_loop.simps) (simp add: exI [of _ "[]"])
  qed
qed

lemma writeBytes_loop_trace:
  "\<exists>es. writeBytes_loop dev len data i s = s\<lparr>wire := wire s @ es\<rparr> \<and>
        mosi es = map (\<lambda>k. data (int k)) [unat i..<unat len] \<and>
        length es = unat len - unat i"
proof (induction dev len data i s rule: writeBytes_loop.induct)
  case (1 dev len data i s)
  show ?case
  proof (cases "i < len")
    case True
    let ?r = "dev (wire s) (data (uint i))"
    let ?s = "emit (Transfer (data (uint i)) ?r) s"
    from True have lt: "unat i < unat len" by (simp add: word_less_nat_alt)
    have upt: "[unat i..<unat len] = unat i # [unat (i + 1)..<unat len]"
      using lt by (simp add: upt_conv_Cons unat_succ_below [OF True])
    obtain es where es: "writeBytes_loop dev len data (i + 1) ?s = ?s\<lparr>wire := wire ?s @ es\<rparr>"
      "mosi es = map (\<lambda>k. data (int k)) [unat (i + 1)..<unat len]"
      "length es = unat len - unat (i + 1)"
      using "1.IH" [OF True, of "(?r, ?s)" ?r ?s] by (auto simp: SPI_transfer_eq)
    let ?es = "Transfer (data (uint i)) ?r # es"
    have "writeBytes_loop dev len data i s = s\<lparr>wire := wire s @ ?es\<rparr>"
      using True es(1) by (subst writeBytes_loop.simps) (simp add: SPI_transfer_eq emit_def)
    moreover have "mosi ?es = map (\<lambda>k. data (int k)) [unat i..<unat len]"
      unfolding upt using es(2) by simp
    moreover have "length ?es = unat len - unat i"
      using es(3) lt by (simp add: unat_succ_below [OF True])
    ultimately show ?thesis by blast
  next
    case False
    then have "\<not> unat i < unat len" by (simp add: word_less_nat_alt)
    with False show ?thesis
      by (subst writeBytes_loop.simps) (simp add: exI [of _ "[]"])
  qed
qed

lemma mosi_length_le: "length (mosi es) \<le> length es"
  by (induction es rule: mosi.induct) simp_all

lemma all_transfers: "length (mosi es) = length es \<Longrightarrow> select_levels es = []"
proof (induction es)
  case Nil
  show ?case by simp
next
  case (Cons e es)
  show ?case
  proof (cases e)
    case (Transfer out r)
    with Cons show ?thesis by simp
  qed (use Cons.prems mosi_length_le [of es] in simp_all)
qed

lemma writeWords_trace:
  "\<exists>r es. emitted s (snd (writeWords dev regAddr len data s)) =
       BeginTransaction (settings s) # DigitalWrite (slave s) LOW # Transfer regAddr r # es @
         [DigitalWrite (slave s) HIGH, EndTransaction] \<and>
     mosi es = concat (map (\<lambda>k. [ucast (drop_bit 8 (data (int k))), ucast (data (int k))])
                 [0..<unat len]) \<and>
     length es = 2 * unat len"
proof -
  let ?s = "emit (DigitalWrite (slave s) LOW) (emit (BeginTransaction (settings s)) s)"
  let ?r = "dev (wire ?s) regAddr"
  let ?s' = "emit (Transfer regAddr ?r) ?s"
  obtain es where es: "writeWords_loop dev len data 0 ?s' = ?s'\<lparr>wire := wire ?s' @ es\<rparr>"
    "mosi es = concat (map (\<lambda>k. [ucast (drop_bit 8 (data (int k))), ucast (data (int k))])
                 [0..<unat len])"
    "length es = 2 * unat len"
    using writeWords_loop_trace [of dev len data 0 ?s'] by auto
  have "emitted s (snd (writeWords dev regAddr len data s)) =
       BeginTransaction (settings s) # DigitalWrite (slave s) LOW # Transfer regAddr ?r # es @
         [DigitalWrite (slave s) HIGH, EndTransaction]"
    using es(1) by (simp add: writeWords_def bus_defs SPI_transfer_eq Let_def emitted_def)
  with es(2,3) show ?thesis by blast
qed

lemma writeBytes_trace:
  "\<exists>r es. emitted s (snd (writeBytes dev regAddr len data s)) =
       BeginTransaction (settings s) # DigitalWrite (slave s) LOW # Transfer regAddr r # es @
         [DigitalWrite (slave s) HIGH, EndTransaction] \<and>
     mosi es = map (\<lambda>k. data (int k)) [0..<unat len] \<and>
     length es = unat len"
proof -
  let ?s = "emit (DigitalWrite (slave s) LOW) (emit (BeginTransaction (settings s)) s)"
  let ?r = "dev (wire ?s) regAddr"
  let ?s' = "emit (Transfer regAddr ?r) ?s"
  obtain es where es: "writeBytes_loop dev len data 0 ?s' = ?s'\<lparr>wire := wire ?s' @ es\<rparr>"
    "mosi es = map (\<lambda>k. data (int k)) [0..<unat len]"
    "length es = unat len"
    using writeBytes_loop_trace [of dev len data 0 ?s'] by auto
  have "emitted s (snd (writeBytes dev regAddr len data s)) =
       BeginTransaction (settings s) # DigitalWrite (slave s) LOW # Transfer regAddr ?r # es @
         [DigitalWrite (slave s) HIGH, EndTransaction]"
    using es(1) by (simp add: writeBytes_def bus_defs SPI_transfer_eq Let_def emitted_def)
  with es(2,3) show ?thesis by blast
qed

section \<open>The status of a write\<close>

text \<open>
  C8. \<open>writeBytes\<close> and \<open>writeWords\<close> return true for every register address,
  count, buffer, device and state.
\<close>

theorem write_status_true:
  "fst (writeBytes dev regAddr len data s) \<and> fst (writeWords dev regAddr len dataW s)"
  by (simp add: writeBytes_def writeWords_def Let_def split_def)

section \<open>Byte order of a word write\<close>

text \<open>
  C4. Whatever bit order is configured, \<open>writeWords\<close> sends, after the address byte,
  for each word of the buffer its high byte \<open>w >> 8\<close> and then its low byte, between
  one chip-select LOW and one HIGH; and \<open>writeWord(0x05, 0xABCD)\<close> with the MSB-first
  configuration sends the bytes 0x05, 0xAB, 0xCD.
\<close>

theorem writeWords_high_byte_first:
  "mosi (emitted (s\<lparr>dataOrder := order\<rparr>)
      (snd (writeWords dev regAddr len data (s\<lparr>dataOrder := order\<rparr>)))) =
     regAddr # concat (map (\<lambda>k. [ucast (drop_bit 8 (data (int k))), ucast (data (int k))])
                 [0..<unat len]) \<and>
   select_levels (emitted (s\<lparr>dataOrder := order\<rparr>)
      (snd (writeWords dev regAddr len data (s\<lparr>dataOrder := order\<rparr>)))) = [LOW, HIGH] \<and>
   mosi (emitted (s\<lparr>dataOrder := word_of_int MSBFIRST\<rparr>)
      (snd (writeWord dev 0x05 0xABCD (s\<lparr>dataOrder := word_of_int MSBFIRST\<rparr>)))) =
     [0x05, 0xAB, 0xCD]"
proof -
  have m: "mosi (emitted s (snd (writeWords dev regAddr len data s))) =
     regAddr # concat (map (\<lambda>k. [ucast (drop_bit 8 (data (int k))), ucast (data (int k))])
                 [0..<unat len])"
    and l: "select_levels (emitted s (snd (writeWords dev regAddr len data s))) = [LOW, HIGH]"
    for s :: spidev and regAddr len data
  proof -
    obtain r es where es: "emitted s (snd (writeWords dev regAddr len data s)) =
       BeginTransaction (settings s) # DigitalWrite (slave s) LOW # Transfer regAddr r # es @
         [DigitalWrite (slave s) HIGH, EndTransaction]"
     "mosi es = concat (map (\<lambda>k. [ucast (drop_bit 8 (data (int k))), ucast (data (int k))])
                 [0..<unat len])"
     "length es = 2 * unat len"
      using writeWords_trace [of s dev regAddr len data] by blast
    have "length (mosi es) = length es"
      unfolding es(2,3) by (simp add: length_concat comp_def sum_list_triv)
    then have n: "select_levels es = []" by (rule all_transfers)
    show "mosi (emitted s (snd (writeWords dev regAddr len data s))) =
     regAddr # concat (map (\<lambda>k. [ucast (drop_bit 8 (data (int k))), ucast (data (int k))])
                 [0..<unat len])"
      unfolding es(1) using es(2) by simp
    show "select_levels (emitted s (snd (writeWords dev regAddr len data s))) = [LOW, HIGH]"
      unfolding es(1) using n by simp
  qed
  have "[0..<unat (1 :: u8)] = [0]" by simp
  then have "mosi (emitted s (snd (writeWord dev 0x05 0xABCD s))) = [0x05, 0xAB, 0xCD]"
    for s :: spidev
    unfolding writeWord_def m by simp
  with m l show ?thesis by blast
qed


section \<open>Reads that never return\<close>

lemma sint_s8_less_128: "sint (count :: s8) < 128"
  using sint_lt [of count] by simp

lemma sint_s8_succ: "sint (count :: s8) < 127 \<Longrightarrow> sint (count + 1) = sint count + 1"
proof -
  assume a: "sint count < 127"
  have "- 128 \<le> sint count" using sint_ge [of count] by simp
  with a have "signed_take_bit 7 (sint count + 1) = sint count + 1"
    by (simp add: signed_take_bit_int_eq_self)
  then show ?thesis by (simp add: sint_word_ariths)
qed

lemma readBytes_loop_runs_on:
  "128 \<le> uint len \<Longrightarrow> \<not> fst (readBytes_loop n dev len count data s)"
proof (induction n arbitrary: count data s)
  case 0
  with sint_s8_less_128 [of count] show ?case by simp
next
  case (Suc n)
  from Suc.prems sint_s8_less_128 [of count] have "sint count < uint len" by simp
  with Suc.IH [OF Suc.prems] show ?case by (simp add: SPI_transfer_eq)
qed

lemma readWords_loop_runs_on:
  "128 \<le> uint len \<Longrightarrow> \<not> fst (readWords_loop n dev len count msb data s)"
proof (induction n arbitrary: count msb data s)
  case 0
  with sint_s8_less_128 [of count] show ?case by simp
next
  case (Suc n)
  from Suc.prems sint_s8_less_128 [of count] have "sint count < uint len" by simp
  with Suc.IH [OF Suc.prems] show ?case by (simp add: SPI_transfer_eq Let_def)
qed

lemma readBytes_loop_transfers:
  "\<exists>rs. snd (snd (snd (readBytes_loop n dev len count data s))) =
          s\<lparr>wire := wire s @ map (Transfer 0) rs\<rparr>"
proof (induction n arbitrary: count data s)
  case 0
  show ?case by (simp add: exI [of _ "[]"])
next
  case (Suc n)
  show ?case
  proof (cases "sint count < uint len")
    case True
    let ?r = "dev (wire s) 0"
    let ?s = "emit (Transfer 0 ?r) s"
    obtain rs where "snd (snd (snd (readBytes_loop n dev len (count + 1)
        (data(sint count := ?r)) ?s))) = ?s\<lparr>wire := wire ?s @ map (Transfer 0) rs\<rparr>"
      using Suc.IH by blast
    then have "snd (snd (snd (readBytes_loop (Suc n) dev len count data s))) =
        s\<lparr>wire := wire s @ map (Transfer 0) (?r # rs)\<rparr>"
      using True by (simp add: SPI_transfer_eq emit_def)
    then show ?thesis by blast
  next
    case False
    then show ?thesis by (simp add: exI [of _ "[]"])
  qed
qed

lemma readWords_loop_transfers:
  "\<exists>rs. snd (snd (snd (readWords_loop n dev len count msb data s))) =
          s\<lparr>wire := wire s @ map (Transfer 0) rs\<rparr>"
proof (induction n arbitrary: count msb data s)
  case 0
  show ?case by (simp add: exI [of _ "[]"])
next
  case (Suc n)
  show ?case
  proof (cases "sint count < uint len")
    case True
    let ?r = "dev (wire s) 0"
    let ?s = "emit (Transfer 0 ?r) s"
    have "\<exists>rs. snd (snd (snd (readWords_loop n dev len c m d ?s))) =
        s\<lparr>wire := wire s @ map (Transfer 0) (?r # rs)\<rparr>" for c m d
      using Suc.IH [of c m d ?s] by (auto simp: emit_def)
    then have "\<exists>rs. snd (snd (snd (readWords_loop (Suc n) dev len count msb data s))) =
        s\<lparr>wire := wire s @ map (Transfer 0) (?r # rs)\<rparr>"
      using True by (simp add: SPI_transfer_eq Let_def)
    then show ?thesis by blast
  next
    case False
    then show ?thesis by (simp add: exI [of _ "[]"])
  qed
qed

lemma select_levels_transfers [simp]: "select_levels (map (Transfer out) rs) = []"
  by (induction rs) simp_all

lemma mosi_transfers [simp]: "mosi (map (Transfer out) rs) = replicate (length rs) out"
  by (induction rs) simp_all

lemma miso_transfers [simp]: "miso (map (Transfer out) rs) = rs"
  by (induction rs) simp_all


text \<open>
  C5. A read of 128 units: whatever the number \<open>n\<close> of loop iterations,
  \<open>readBytes\<close> and \<open>readWords\<close> have not returned, and the chip-select line has been
  driven LOW and never HIGH. The \<open>int8_t\<close> counter never reaches a \<open>uint8_t\<close> length
  of 128 or more.
\<close>

theorem read_of_128_never_returns:
  "fst (readBytes n dev regAddr 128 data s) = None \<and>
   select_levels (emitted s (snd (snd (readBytes n dev regAddr 128 data s)))) = [LOW] \<and>
   fst (readWords n dev regAddr 128 dataW s) = None \<and>
   select_levels (emitted s (snd (snd (readWords n dev regAddr 128 dataW s)))) = [LOW]"
proof -
  let ?s = "emit (DigitalWrite (slave s) LOW) (emit (BeginTransaction (settings s)) s)"
  let ?out = "regAddr OR 0x80"
  let ?s' = "emit (Transfer ?out (dev (wire ?s) ?out)) ?s"
  have big: "128 \<le> uint (128 :: u8)" by simp
  obtain l c d t where b: "readBytes_loop n dev 128 0 data ?s' = (l, c, d, t)"
    by (cases "readBytes_loop n dev 128 0 data ?s'")
  from readBytes_loop_runs_on [OF big, of n dev 0 data ?s'] b have l: "\<not> l" by simp
  obtain rs where "t = ?s'\<lparr>wire := wire ?s' @ map (Transfer 0) rs\<rparr>"
    using readBytes_loop_transfers [of n dev 128 0 data ?s'] b by auto
  with b l have rb: "fst (readBytes n dev regAddr 128 data s) = None"
    "select_levels (emitted s (snd (snd (readBytes n dev regAddr 128 data s)))) = [LOW]"
    by (simp_all add: readBytes_def bus_defs SPI_transfer_eq READ_def emitted_def)
  let ?m = "dataOrder s \<noteq> 0"
  obtain l c d t where w: "readWords_loop n dev 128 0 ?m dataW ?s' = (l, c, d, t)"
    by (cases "readWords_loop n dev 128 0 ?m dataW ?s'")
  from readWords_loop_runs_on [OF big, of n dev 0 ?m dataW ?s'] w have l: "\<not> l" by simp
  obtain rs where "t = ?s'\<lparr>wire := wire ?s' @ map (Transfer 0) rs\<rparr>"
    using readWords_loop_transfers [of n dev 128 0 ?m dataW ?s'] w by auto
  with w l have rw: "fst (readWords n dev regAddr 128 dataW s) = None"
    "select_levels (emitted s (snd (snd (readWords n dev regAddr 128 dataW s)))) = [LOW]"
    by (simp_all add: readWords_def bus_defs SPI_transfer_eq READ_def emitted_def)
  from rb rw show ?thesis by blast
qed



section \<open>Reads that return\<close>

lemma sint_u8_small: "uint (x :: u8) \<le> 127 \<Longrightarrow> sint x = uint x"
proof -
  assume a: "uint x \<le> 127"
  have lo: "- (2 ^ 7) \<le> uint x" by (rule order_trans [of _ 0]) simp_all
  have hi: "uint x < 2 ^ 7" using a by simp
  from lo hi have "signed_take_bit 7 (uint x) = uint x"
    by (rule signed_take_bit_int_eq_self)
  then show ?thesis by (simp add: sint_uint)
qed

lemma s8_eq_u8:
  "uint (len :: u8) \<le> 127 \<Longrightarrow> sint (count :: s8) = uint len \<Longrightarrow> count = len"
proof -
  assume "uint len \<le> 127" "sint count = uint len"
  then have "sint count = sint len" by (simp add: sint_u8_small)
  then show ?thesis by (rule signed_word_eqI)
qed

lemma empty_range:
  "sint (count :: s8) = uint (len :: u8) \<Longrightarrow>
   (\<lambda>k. if sint count \<le> k \<and> k < uint len then f k else data k) = data"
  by (auto simp: fun_eq_iff)

lemma readBytes_loop_done:
  assumes "uint len \<le> 127" "0 \<le> sint count" "sint count \<le> uint len"
    and "nat (uint len - sint count) \<le> n"
  shows "\<exists>rs. readBytes_loop n dev len count data s =
           (True, len,
            (\<lambda>k. if sint count \<le> k \<and> k < uint len then rs ! nat (k - sint count) else data k),
            s\<lparr>wire := wire s @ map (Transfer 0) rs\<rparr>) \<and>
          length rs = nat (uint len - sint count)"
  using assms
proof (induction n arbitrary: count data s)
  case 0
  then have eq: "sint count = uint len" by simp
  with "0.prems"(1) have c: "count = len" by (simp add: s8_eq_u8)
  have e: "(\<lambda>k. if sint count \<le> k \<and> k < uint len then [] ! nat (k - sint count) else data k) =
      data"
    by (rule empty_range [OF eq])
  have "readBytes_loop 0 dev len count data s =
           (True, len,
            (\<lambda>k. if sint count \<le> k \<and> k < uint len then [] ! nat (k - sint count) else data k),
            s\<lparr>wire := wire s @ map (Transfer 0) []\<rparr>) \<and>
          length [] = nat (uint len - sint count)"
    unfolding e using eq c by simp
  then show ?case by blast
next
  case (Suc n)
  show ?case
  proof (cases "sint count < uint len")
    case True
    let ?r = "dev (wire s) 0"
    let ?s = "emit (Transfer 0 ?r) s"
    let ?d = "data(sint count := ?r)"
    from True Suc.prems have succ: "sint (count + 1) = sint count + 1"
      by (simp add: sint_s8_succ)
    have p: "0 \<le> sint (count + 1)" "sint (count + 1) \<le> uint len"
      "nat (uint len - sint (count + 1)) \<le> n"
      using True Suc.prems unfolding succ by linarith+
    obtain rs where rs: "readBytes_loop n dev len (count + 1) ?d ?s =
           (True, len,
            (\<lambda>k. if sint (count + 1) \<le> k \<and> k < uint len then rs ! nat (k - sint (count + 1))
                 else ?d k),
            ?s\<lparr>wire := wire ?s @ map (Transfer 0) rs\<rparr>)"
        "length rs = nat (uint len - sint (count + 1))"
      using Suc.IH [OF Suc.prems(1) p, of ?d ?s] by blast
    have "(\<lambda>k. if sint (count + 1) \<le> k \<and> k < uint len then rs ! nat (k - sint (count + 1))
                 else ?d k) =
          (\<lambda>k. if sint count \<le> k \<and> k < uint len then (?r # rs) ! nat (k - sint count)
                 else data k)"
    proof
      fix k
      show "(if sint (count + 1) \<le> k \<and> k < uint len then rs ! nat (k - sint (count + 1))
                 else ?d k) =
          (if sint count \<le> k \<and> k < uint len then (?r # rs) ! nat (k - sint count)
                 else data k)"
      proof -
        have "nat (k - (sint count + 1)) = nat (k - sint count) - Suc 0" by arith
        then show ?thesis
          using True unfolding succ by (auto simp: nth_Cons')
      qed
    qed
    with rs True succ
    have "readBytes_loop (Suc n) dev len count data s =
           (True, len,
            (\<lambda>k. if sint count \<le> k \<and> k < uint len then (?r # rs) ! nat (k - sint count)
                 else data k),
            s\<lparr>wire := wire s @ map (Transfer 0) (?r # rs)\<rparr>) \<and>
          length (?r # rs) = nat (uint len - sint count)"
      by (simp add: SPI_transfer_eq emit_def)
    then show ?thesis by blast
  next
    case False
    with Suc.prems have eq: "sint count = uint len" by simp
    with Suc.prems(1) have c: "count = len" by (simp add: s8_eq_u8)
    have e: "(\<lambda>k. if sint count \<le> k \<and> k < uint len then [] ! nat (k - sint count)
        else data k) = data"
      by (rule empty_range [OF eq])
    have "readBytes_loop (Suc n) dev len count data s =
           (True, len,
            (\<lambda>k. if sint count \<le> k \<and> k < uint len then [] ! nat (k - sint count) else data k),
            s\<lparr>wire := wire s @ map (Transfer 0) []\<rparr>) \<and>
          length [] = nat (uint len - sint count)"
      unfolding e using eq c by simp
    then show ?thesis by blast
  qed
qed


lemma readBytes_returns:
  assumes "uint len \<le> 127" "unat len \<le> n"
  shows "\<exists>a rs. readBytes n dev regAddr len data s =
           (Some len, (\<lambda>k. if 0 \<le> k \<and> k < uint len then rs ! nat k else data k),
            s\<lparr>wire := wire s @ BeginTransaction (settings s) # DigitalWrite (slave s) LOW #
              Transfer (regAddr OR 0x80) a # map (Transfer 0) rs @
              [DigitalWrite (slave s) HIGH, EndTransaction]\<rparr>) \<and>
         length rs = unat len"
proof -
  let ?s = "emit (DigitalWrite (slave s) LOW) (emit (BeginTransaction (settings s)) s)"
  let ?out = "regAddr OR 0x80"
  let ?a = "dev (wire ?s) ?out"
  let ?s' = "emit (Transfer ?out ?a) ?s"
  have fuel: "nat (uint len - sint (0 :: s8)) \<le> n"
    using assms(2) by simp
  have p: "0 \<le> sint (0 :: s8)" "sint (0 :: s8) \<le> uint len" by simp_all
  obtain rs where rs: "readBytes_loop n dev len 0 data ?s' =
           (True, len,
            (\<lambda>k. if sint (0 :: s8) \<le> k \<and> k < uint len then rs ! nat (k - sint (0 :: s8))
                 else data k),
            ?s'\<lparr>wire := wire ?s' @ map (Transfer 0) rs\<rparr>)"
    "length rs = nat (uint len - sint (0 :: s8))"
    using readBytes_loop_done [OF assms(1) p fuel, of dev data ?s'] by blast
  from rs(1) have "readBytes n dev regAddr len data s =
           (Some len, (\<lambda>k. if 0 \<le> k \<and> k < uint len then rs ! nat k else data k),
            s\<lparr>wire := wire s @ BeginTransaction (settings s) # DigitalWrite (slave s) LOW #
              Transfer (regAddr OR 0x80) ?a # map (Transfer 0) rs @
              [DigitalWrite (slave s) HIGH, EndTransaction]\<rparr>)"
    by (simp add: readBytes_def bus_defs SPI_transfer_eq READ_def emit_def cong: if_cong)
  moreover from rs(2) have "length rs = unat len" by simp
  ultimately show ?thesis by blast
qed

text \<open>One word of \<open>readWords\<close> in the MSB phase: two iterations.\<close>

lemma readWords_loop_word:
  assumes "sint count < uint len"
  shows "readWords_loop (Suc (Suc n)) dev len count True data s =
     readWords_loop n dev len (count + 1) True
       (data(sint count := push_bit 8 (ucast (dev (wire s) 0)) OR
          ucast (dev (wire s @ [Transfer 0 (dev (wire s) 0)]) 0)))
       (s\<lparr>wire := wire s @ [Transfer 0 (dev (wire s) 0),
          Transfer 0 (dev (wire s @ [Transfer 0 (dev (wire s) 0)]) 0)]\<rparr>)"
  using assms by (simp add: SPI_transfer_eq MSBFIRST_def LSBFIRST_def emit_def)


lemma readWords_loop_done:
  assumes "uint len \<le> 127" "0 \<le> sint count" "sint count \<le> uint len"
    and "2 * nat (uint len - sint count) \<le> n"
  shows "\<exists>rs. readWords_loop n dev len count True data s =
           (True, len,
            (\<lambda>k. if sint count \<le> k \<and> k < uint len then words_of rs ! nat (k - sint count)
                 else data k),
            s\<lparr>wire := wire s @ map (Transfer 0) rs\<rparr>) \<and>
          length rs = 2 * nat (uint len - sint count)"
  using assms
proof (induction n arbitrary: count data s rule: less_induct)
  case (less n)
  show ?case
  proof (cases "sint count < uint len")
    case False
    with less.prems have eq: "sint count = uint len" by simp
    with less.prems(1) have c: "count = len" by (simp add: s8_eq_u8)
    have e: "(\<lambda>k. if sint count \<le> k \<and> k < uint len then words_of [] ! nat (k - sint count)
        else data k) = data"
      by (rule empty_range [OF eq])
    have "readWords_loop n dev len count True data s = (True, len, data, s)"
      using eq c by (cases n) simp_all
    then have "readWords_loop n dev len count True data s =
           (True, len,
            (\<lambda>k. if sint count \<le> k \<and> k < uint len then words_of [] ! nat (k - sint count)
                 else data k),
            s\<lparr>wire := wire s @ map (Transfer 0) []\<rparr>) \<and>
          length ([] :: u8 list) = 2 * nat (uint len - sint count)"
      unfolding e using eq by simp
    then show ?thesis by blast
  next
    case True
    with less.prems obtain m where n: "n = Suc (Suc m)"
      by (cases n; cases "n - 1") auto
    let ?r1 = "dev (wire s) 0"
    let ?r2 = "dev (wire s @ [Transfer 0 ?r1]) 0"
    let ?d = "data(sint count := push_bit 8 (ucast ?r1) OR ucast ?r2)"
    let ?s = "s\<lparr>wire := wire s @ [Transfer 0 ?r1, Transfer 0 ?r2]\<rparr>"
    from True less.prems have succ: "sint (count + 1) = sint count + 1"
      by (simp add: sint_s8_succ)
    have p: "0 \<le> sint (count + 1)" "sint (count + 1) \<le> uint len"
      "2 * nat (uint len - sint (count + 1)) \<le> m"
      using True less.prems n unfolding succ by linarith+
    have "m < n" using n by simp
    from less.IH [OF this less.prems(1) p, of ?d ?s]
    obtain rs where rs: "readWords_loop m dev len (count + 1) True ?d ?s =
           (True, len,
            (\<lambda>k. if sint (count + 1) \<le> k \<and> k < uint len
                 then words_of rs ! nat (k - sint (count + 1)) else ?d k),
            ?s\<lparr>wire := wire ?s @ map (Transfer 0) rs\<rparr>)"
        "length rs = 2 * nat (uint len - sint (count + 1))"
      by blast
    have "(\<lambda>k. if sint (count + 1) \<le> k \<and> k < uint len
                 then words_of rs ! nat (k - sint (count + 1)) else ?d k) =
          (\<lambda>k. if sint count \<le> k \<and> k < uint len
                 then words_of (?r1 # ?r2 # rs) ! nat (k - sint count) else data k)"
    proof
      fix k
      show "(if sint (count + 1) \<le> k \<and> k < uint len
                 then words_of rs ! nat (k - sint (count + 1)) else ?d k) =
          (if sint count \<le> k \<and> k < uint len
                 then words_of (?r1 # ?r2 # rs) ! nat (k - sint count) else data k)"
      proof -
        have "nat (k - (sint count + 1)) = nat (k - sint count) - Suc 0" by arith
        then show ?thesis
          using True unfolding succ by (auto simp: nth_Cons')
      qed
    qed
    with rs True succ
    have "readWords_loop n dev len count True data s =
           (True, len,
            (\<lambda>k. if sint count \<le> k \<and> k < uint len
                 then words_of (?r1 # ?r2 # rs) ! nat (k - sint count) else data k),
            s\<lparr>wire := wire s @ map (Transfer 0) (?r1 # ?r2 # rs)\<rparr>) \<and>
          length (?r1 # ?r2 # rs) = 2 * nat (uint len - sint count)"
      unfolding n readWords_loop_word [OF True] by simp
    then show ?thesis by blast
  qed
qed

lemma words_of_nth:
  "i < m \<Longrightarrow> length rs = 2 * m \<Longrightarrow>
   words_of rs ! i = push_bit 8 (ucast (rs ! (2 * i))) OR ucast (rs ! (2 * i + 1))"
proof (induction rs arbitrary: i m rule: words_of.induct)
  case (1 hi lo rs)
  show ?case
  proof (cases i)
    case 0
    then show ?thesis by simp
  next
    case (Suc j)
    with "1.prems" have "j < m - 1" "length rs = 2 * (m - 1)" by auto
    then have "words_of rs ! j = push_bit 8 (ucast (rs ! (2 * j))) OR ucast (rs ! (2 * j + 1))"
      by (rule "1.IH")
    with Suc show ?thesis by simp
  qed
qed auto

lemma readBytes_loop_exit:
  "\<not> sint count < uint len \<Longrightarrow> readBytes_loop n dev len count data s = (True, count, data, s)"
  by (cases n) simp_all

lemma readWords_loop_exit:
  "\<not> sint count < uint len \<Longrightarrow>
   readWords_loop n dev len count msb data s = (True, count, data, s)"
  by (cases n) simp_all

lemma one_s8: "sint (0 :: s8) < uint (1 :: u8)" "\<not> sint (0 + 1 :: s8) < uint (1 :: u8)"
  by simp_all

lemma readBytes_loop_one:
  "readBytes_loop (Suc n) dev 1 0 data s =
     (True, 1, data(0 := dev (wire s) 0), s\<lparr>wire := wire s @ [Transfer 0 (dev (wire s) 0)]\<rparr>)"
proof -
  have "readBytes_loop (Suc n) dev 1 0 data s =
      readBytes_loop n dev 1 (0 + 1) (data(0 := dev (wire s) 0))
        (s\<lparr>wire := wire s @ [Transfer 0 (dev (wire s) 0)]\<rparr>)"
    using one_s8(1) by (simp add: SPI_transfer_eq emit_def)
  also have "\<dots> = (True, 0 + 1, data(0 := dev (wire s) 0),
      s\<lparr>wire := wire s @ [Transfer 0 (dev (wire s) 0)]\<rparr>)"
    by (rule readBytes_loop_exit [OF one_s8(2)])
  finally show ?thesis by simp
qed

lemma readByte_returns:
  "readByte (Suc n) dev regAddr data s =
     (let opening = wire s @ [BeginTransaction (settings s), DigitalWrite (slave s) LOW];
          a = dev opening (regAddr OR 0x80);
          r = dev (opening @ [Transfer (regAddr OR 0x80) a]) 0
      in (Some 1, data(0 := r),
          s\<lparr>wire := opening @ [Transfer (regAddr OR 0x80) a, Transfer 0 r,
            DigitalWrite (slave s) HIGH, EndTransaction]\<rparr>))"
  by (simp add: readByte_def readBytes_def bus_defs SPI_transfer_eq READ_def
      readBytes_loop_one emit_def Let_def del: readBytes_loop.simps)

lemma readWords_loop_one_lsb:
  "readWords_loop (Suc n) dev 1 0 False data s =
     (True, 1, data(0 := data 0 OR ucast (dev (wire s) 0)),
      s\<lparr>wire := wire s @ [Transfer 0 (dev (wire s) 0)]\<rparr>)"
proof -
  have "readWords_loop (Suc n) dev 1 0 False data s =
      readWords_loop n dev 1 (0 + 1) True (data(0 := data 0 OR ucast (dev (wire s) 0)))
        (s\<lparr>wire := wire s @ [Transfer 0 (dev (wire s) 0)]\<rparr>)"
    using one_s8(1) by (simp add: SPI_transfer_eq emit_def MSBFIRST_def)
  also have "\<dots> = (True, 0 + 1, data(0 := data 0 OR ucast (dev (wire s) 0)),
      s\<lparr>wire := wire s @ [Transfer 0 (dev (wire s) 0)]\<rparr>)"
    by (rule readWords_loop_exit [OF one_s8(2)])
  finally show ?thesis by simp
qed

lemma readWords_loop_one_msb:
  "readWords_loop (Suc (Suc n)) dev 1 0 True data s =
     (True, 1,
      data(0 := push_bit 8 (ucast (dev (wire s) 0)) OR
          ucast (dev (wire s @ [Transfer 0 (dev (wire s) 0)]) 0)),
      s\<lparr>wire := wire s @ [Transfer 0 (dev (wire s) 0),
          Transfer 0 (dev (wire s @ [Transfer 0 (dev (wire s) 0)]) 0)]\<rparr>)"
proof -
  have "readWords_loop (Suc (Suc n)) dev 1 0 True data s =
     readWords_loop n dev 1 (0 + 1) True
       (data(sint (0 :: s8) := push_bit 8 (ucast (dev (wire s) 0)) OR
          ucast (dev (wire s @ [Transfer 0 (dev (wire s) 0)]) 0)))
       (s\<lparr>wire := wire s @ [Transfer 0 (dev (wire s) 0),
          Transfer 0 (dev (wire s @ [Transfer 0 (dev (wire s) 0)]) 0)]\<rparr>)"
    by (rule readWords_loop_word [OF one_s8(1)])
  also have "\<dots> = (True, 0 + 1,
       (data(sint (0 :: s8) := push_bit 8 (ucast (dev (wire s) 0)) OR
          ucast (dev (wire s @ [Transfer 0 (dev (wire s) 0)]) 0))),
       (s\<lparr>wire := wire s @ [Transfer 0 (dev (wire s) 0),
          Transfer 0 (dev (wire s @ [Transfer 0 (dev (wire s) 0)]) 0)]\<rparr>))"
    by (rule readWords_loop_exit [OF one_s8(2)])
  finally show ?thesis by simp
qed

lemma readWord_returns_lsb:
  "dataOrder s = 0 \<Longrightarrow>
   readWord (Suc n) dev regAddr data s =
     (let opening = wire s @ [BeginTransaction (settings s), DigitalWrite (slave s) LOW];
          a = dev opening (regAddr OR 0x80);
          r = dev (opening @ [Transfer (regAddr OR 0x80) a]) 0
      in (Some 1, data(0 := data 0 OR ucast r),
          s\<lparr>wire := opening @ [Transfer (regAddr OR 0x80) a, Transfer 0 r,
            DigitalWrite (slave s) HIGH, EndTransaction]\<rparr>))"
  by (simp add: readWord_def readWords_def bus_defs SPI_transfer_eq READ_def
      readWords_loop_one_lsb emit_def Let_def del: readWords_loop.simps)

lemma readWord_returns_msb:
  "dataOrder s \<noteq> 0 \<Longrightarrow>
   readWord (Suc (Suc n)) dev regAddr data s =
     (let opening = wire s @ [BeginTransaction (settings s), DigitalWrite (slave s) LOW];
          a = dev opening (regAddr OR 0x80);
          r1 = dev (opening @ [Transfer (regAddr OR 0x80) a]) 0;
          r2 = dev (opening @ [Transfer (regAddr OR 0x80) a, Transfer 0 r1]) 0
      in (Some 1, data(0 := push_bit 8 (ucast r1) OR ucast r2),
          s\<lparr>wire := opening @ [Transfer (regAddr OR 0x80) a, Transfer 0 r1, Transfer 0 r2,
            DigitalWrite (slave s) HIGH, EndTransaction]\<rparr>))"
  by (simp add: readWord_def readWords_def bus_defs SPI_transfer_eq READ_def
      readWords_loop_one_msb emit_def Let_def del: readWords_loop.simps)

section \<open>Byte order of a word read\<close>

text \<open>
  With a non-zero \<open>dataOrder\<close> (such as \<open>MSBFIRST\<close>) and a count of at most 127 words,
  \<open>readWords\<close> returns the count after two transfers per word, and word \<open>k\<close> of the
  buffer holds the first byte received for it in bits 15-8 and the second in bits 7-0;
  cells outside the count are untouched.
\<close>

lemma readWords_msb_first:
  assumes "dataOrder s \<noteq> 0" "uint len \<le> 127" "2 * unat len \<le> n"
  shows "\<exists>a rs. readWords n dev regAddr len data s =
           (Some len,
            (\<lambda>k. if 0 \<le> k \<and> k < uint len
                 then push_bit 8 (ucast (rs ! (2 * nat k))) OR ucast (rs ! (2 * nat k + 1))
                 else data k),
            s\<lparr>wire := wire s @ BeginTransaction (settings s) # DigitalWrite (slave s) LOW #
              Transfer (regAddr OR 0x80) a # map (Transfer 0) rs @
              [DigitalWrite (slave s) HIGH, EndTransaction]\<rparr>) \<and>
         length rs = 2 * unat len"
proof -
  let ?s = "emit (DigitalWrite (slave s) LOW) (emit (BeginTransaction (settings s)) s)"
  let ?out = "regAddr OR 0x80"
  let ?a = "dev (wire ?s) ?out"
  let ?s' = "emit (Transfer ?out ?a) ?s"
  have fuel: "2 * nat (uint len - sint (0 :: s8)) \<le> n"
    using assms(3) by simp
  have p: "0 \<le> sint (0 :: s8)" "sint (0 :: s8) \<le> uint len" by simp_all
  obtain rs where rs: "readWords_loop n dev len 0 True data ?s' =
           (True, len,
            (\<lambda>k. if sint (0 :: s8) \<le> k \<and> k < uint len
                 then words_of rs ! nat (k - sint (0 :: s8)) else data k),
            ?s'\<lparr>wire := wire ?s' @ map (Transfer 0) rs\<rparr>)"
    "length rs = 2 * nat (uint len - sint (0 :: s8))"
    using readWords_loop_done [OF assms(2) p fuel, of dev data ?s'] by blast
  from rs(2) have len: "length rs = 2 * unat len" by simp
  have "(\<lambda>k. if sint (0 :: s8) \<le> k \<and> k < uint len
                 then words_of rs ! nat (k - sint (0 :: s8)) else data k) =
        (\<lambda>k. if 0 \<le> k \<and> k < uint len
                 then push_bit 8 (ucast (rs ! (2 * nat k))) OR ucast (rs ! (2 * nat k + 1))
                 else data k)"
  proof
    fix k
    have "words_of rs ! nat k =
        push_bit 8 (ucast (rs ! (2 * nat k))) OR ucast (rs ! (2 * nat k + 1))"
      if "0 \<le> k" "k < uint len"
    proof (rule words_of_nth [OF _ len])
      from that have "nat k < nat (uint len)" by linarith
      then show "nat k < unat len" by simp
    qed
    then show "(if sint (0 :: s8) \<le> k \<and> k < uint len
                 then words_of rs ! nat (k - sint (0 :: s8)) else data k) =
        (if 0 \<le> k \<and> k < uint len
                 then push_bit 8 (ucast (rs ! (2 * nat k))) OR ucast (rs ! (2 * nat k + 1))
                 else data k)"
      by simp
  qed
  with rs(1) assms(1) have "readWords n dev regAddr len data s =
           (Some len,
            (\<lambda>k. if 0 \<le> k \<and> k < uint len
                 then push_bit 8 (ucast (rs ! (2 * nat k))) OR ucast (rs ! (2 * nat k + 1))
                 else data k),
            s\<lparr>wire := wire s @ BeginTransaction (settings s) # DigitalWrite (slave s) LOW #
              Transfer (regAddr OR 0x80) ?a # map (Transfer 0) rs @
              [DigitalWrite (slave s) HIGH, EndTransaction]\<rparr>)"
    by (simp add: readWords_def bus_defs SPI_transfer_eq READ_def emit_def
        del: readWords_loop.simps)
  with len show ?thesis by blast
qed

text \<open>
  C3. The phase that \<open>readWords\<close> starts in is the configured \<open>dataOrder\<close>, so with
  the LSB-first configuration (\<open>dataOrder = 0\<close>) a word does not start in the MSB phase.
  A read of one word then makes a single data transfer, and the byte received is OR-ed
  into bits 7-0 of the cell on top of what the caller's buffer held, for every device
  and buffer. From a device that answers 0xAB, into a cell that held 0x1800, the word
  read is 0x18AB; the bytes received are the answers to the address byte and to one
  data byte.
\<close>

theorem readWords_lsb_first_one_word:
  "fst (readWords (Suc n) dev regAddr 1 data (s\<lparr>dataOrder := 0\<rparr>)) = Some 1 \<and>
   mosi (emitted (s\<lparr>dataOrder := 0\<rparr>)
     (snd (snd (readWords (Suc n) dev regAddr 1 data (s\<lparr>dataOrder := 0\<rparr>))))) =
     [regAddr OR 0x80, 0] \<and>
   fst (snd (readWords (Suc n) dev regAddr 1 data (s\<lparr>dataOrder := 0\<rparr>))) 0 =
     data 0 OR ucast (miso (emitted (s\<lparr>dataOrder := 0\<rparr>)
       (snd (snd (readWords (Suc n) dev regAddr 1 data (s\<lparr>dataOrder := 0\<rparr>))))) ! 1) \<and>
   fst (readWords 2 (answering 0xAB) 0x10 1 (\<lambda>_. 0x1800) power_on) = Some 1 \<and>
   fst (snd (readWords 2 (answering 0xAB) 0x10 1 (\<lambda>_. 0x1800) power_on)) 0 = 0x18AB \<and>
   miso (emitted power_on
     (snd (snd (readWords 2 (answering 0xAB) 0x10 1 (\<lambda>_. 0x1800) power_on)))) = [0xAB, 0xAB]"
proof -
  have z: "dataOrder (s\<lparr>dataOrder := 0\<rparr>) = 0" by simp
  have lsb: "dataOrder power_on = 0" by (simp add: power_on_def)
  have two: "(2 :: nat) = Suc 1" by simp
  have general:
    "fst (readWords (Suc n) dev regAddr 1 data (s\<lparr>dataOrder := 0\<rparr>)) = Some 1"
    "mosi (emitted (s\<lparr>dataOrder := 0\<rparr>)
       (snd (snd (readWords (Suc n) dev regAddr 1 data (s\<lparr>dataOrder := 0\<rparr>))))) =
     [regAddr OR 0x80, 0]"
    "fst (snd (readWords (Suc n) dev regAddr 1 data (s\<lparr>dataOrder := 0\<rparr>))) 0 =
     data 0 OR ucast (miso (emitted (s\<lparr>dataOrder := 0\<rparr>)
       (snd (snd (readWords (Suc n) dev regAddr 1 data (s\<lparr>dataOrder := 0\<rparr>))))) ! 1)"
    unfolding readWord_def [symmetric] readWord_returns_lsb [OF z]
    by (simp_all add: emitted_def Let_def)
  have example:
    "fst (readWords 2 (answering 0xAB) 0x10 1 (\<lambda>_. 0x1800) power_on) = Some 1"
    "fst (snd (readWords 2 (answering 0xAB) 0x10 1 (\<lambda>_. 0x1800) power_on)) 0 = 0x18AB"
    "miso (emitted power_on
       (snd (snd (readWords 2 (answering 0xAB) 0x10 1 (\<lambda>_. 0x1800) power_on)))) =
     [0xAB, 0xAB]"
    unfolding two readWord_def [symmetric] readWord_returns_lsb [OF lsb]
    by (simp_all add: answering_def emitted_def Let_def)
  from general example show ?thesis by blast
qed

section \<open>Single-unit writes and the bit-level writes\<close>

lemma writeBytes_loop_one:
  "writeBytes_loop dev 1 data 0 s =
     s\<lparr>wire := wire s @ [Transfer (data 0) (dev (wire s) (data 0))]\<rparr>"
proof -
  have "writeBytes_loop dev 1 data 0 s =
      writeBytes_loop dev 1 data (0 + 1) (emit (Transfer (data 0) (dev (wire s) (data 0))) s)"
    by (subst writeBytes_loop.simps) (simp add: SPI_transfer_eq)
  also have "\<dots> = emit (Transfer (data 0) (dev (wire s) (data 0))) s"
    by (subst writeBytes_loop.simps) simp
  finally show ?thesis by (simp add: emit_def)
qed

lemma writeWords_loop_one:
  "writeWords_loop dev 1 data 0 s =
     (let hi = ucast (drop_bit 8 (data 0)); lo = ucast (data 0);
          r = dev (wire s) hi
      in s\<lparr>wire := wire s @ [Transfer hi r, Transfer lo (dev (wire s @ [Transfer hi r]) lo)]\<rparr>)"
proof -
  let ?hi = "ucast (drop_bit 8 (data 0)) :: u8"
  let ?lo = "ucast (data 0) :: u8"
  let ?s1 = "emit (Transfer ?hi (dev (wire s) ?hi)) s"
  let ?s2 = "emit (Transfer ?lo (dev (wire ?s1) ?lo)) ?s1"
  have "writeWords_loop dev 1 data 0 s = writeWords_loop dev 1 data (0 + 1) ?s2"
    by (subst writeWords_loop.simps) (simp add: SPI_transfer_eq)
  also have "\<dots> = ?s2"
    by (subst writeWords_loop.simps) simp
  finally show ?thesis by (simp add: emit_def Let_def)
qed

lemma writeByte_returns:
  "writeByte dev regAddr b s =
     (let opening = wire s @ [BeginTransaction (settings s), DigitalWrite (slave s) LOW];
          a = dev opening regAddr
      in (True,
          s\<lparr>wire := opening @ [Transfer regAddr a,
            Transfer b (dev (opening @ [Transfer regAddr a]) b),
            DigitalWrite (slave s) HIGH, EndTransaction]\<rparr>))"
  by (simp add: writeByte_def writeBytes_def bus_defs SPI_transfer_eq writeBytes_loop_one
      emit_def Let_def)

lemma writeWord_returns:
  "writeWord dev regAddr w s =
     (let opening = wire s @ [BeginTransaction (settings s), DigitalWrite (slave s) LOW];
          a = dev opening regAddr;
          hi = ucast (drop_bit 8 w); lo = ucast w;
          r = dev (opening @ [Transfer regAddr a]) hi
      in (True,
          s\<lparr>wire := opening @ [Transfer regAddr a, Transfer hi r,
            Transfer lo (dev (opening @ [Transfer regAddr a, Transfer hi r]) lo),
            DigitalWrite (slave s) HIGH, EndTransaction]\<rparr>))"
  by (simp add: writeWord_def writeWords_def bus_defs SPI_transfer_eq writeWords_loop_one
      emit_def Let_def)

lemma writeByte_mosi:
  "fst (writeByte dev regAddr b s) \<and>
   mosi (emitted s (snd (writeByte dev regAddr b s))) = [regAddr, b]"
  by (simp add: writeByte_returns Let_def emitted_def)

lemma writeWord_mosi:
  "fst (writeWord dev regAddr w s) \<and>
   mosi (emitted s (snd (writeWord dev regAddr w s))) =
     [regAddr, ucast (drop_bit 8 w), ucast w]"
  by (simp add: writeWord_returns Let_def emitted_def)

lemma field_mask:
  "(word_of_int (push_bit sh (push_bit len 1 - 1)) :: 'a::len word) = push_bit sh (mask len)"
proof -
  have "push_bit len (1 :: int) - 1 = mask len"
    by (simp add: mask_eq_exp_minus_1 push_bit_eq_mult)
  then show ?thesis by (simp add: of_int_push_bit of_int_mask_eq)
qed

lemma field_mask_exp:
  "(word_of_int (push_bit sh (2 ^ len - 1)) :: 'a::len word) = push_bit sh (mask len)"
  using field_mask [of sh len, where ?'a = 'a] by simp


lemma emitted_trans:
  "wire t = wire s @ es \<Longrightarrow> wire u = wire t @ fs \<Longrightarrow> emitted s u = es @ fs"
  by (simp add: emitted_def)

lemma readByte_then_writeByte:
  "fst (readByte (Suc n) dev regAddr data s) = Some 1 \<and>
   mosi (emitted s (snd (writeByte dev regAddr x
      (snd (snd (readByte (Suc n) dev regAddr data s)))))) = [regAddr OR 0x80, 0, regAddr, x]"
  by (simp add: readByte_returns writeByte_returns Let_def emitted_def)

lemma readWord_then_writeWord:
  "fst (readWord (Suc (Suc n)) dev regAddr data s) = Some 1 \<and>
   mosi (emitted s (snd (writeWord dev regAddr y
      (snd (snd (readWord (Suc (Suc n)) dev regAddr data s)))))) =
     (regAddr OR 0x80) # replicate (if dataOrder s = 0 then 1 else 2) 0 @
       [regAddr, ucast (drop_bit 8 y), ucast y]"
proof (cases "dataOrder s = 0")
  case True
  then show ?thesis
    by (simp add: readWord_returns_lsb [OF True] writeWord_returns Let_def emitted_def)
next
  case False
  have two: "replicate 2 (0 :: u8) = [0, 0]" by (simp add: numeral_2_eq_2)
  from False show ?thesis
    by (simp add: readWord_returns_msb [OF False] writeWord_returns Let_def emitted_def two)
qed

lemma writeBits_rest_eq:
  "writeBits_rest dev regAddr bitStart len data (Some count, mem, t) =
     (if count = 0 then Inr (Some False, t)
      else if shift_defined (uint len) \<and> shift_defined (uint bitStart - uint len + 1)
      then Inr (Some True, snd (writeByte dev regAddr
        ((mem 0 AND NOT (push_bit (nat (uint bitStart - uint len + 1)) (mask (unat len)))) OR
         (push_bit (nat (uint bitStart - uint len + 1)) data AND
          push_bit (nat (uint bitStart - uint len + 1)) (mask (unat len)))) t))
      else Inl Undefined_shift)"
  using writeByte_mosi
  by (simp add: writeBits_rest_def field_mask_exp Let_def split_def)

lemma writeBitsW_rest_eq:
  "writeBitsW_rest dev regAddr bitStart len data (Some count, mem, t) =
     (if count = 0 then Inr (Some False, t)
      else if shift_defined (uint len) \<and> shift_defined (uint bitStart - uint len + 1)
      then Inr (Some True, snd (writeWord dev regAddr
        ((mem 0 AND NOT (push_bit (nat (uint bitStart - uint len + 1)) (mask (unat len)))) OR
         (push_bit (nat (uint bitStart - uint len + 1)) data AND
          push_bit (nat (uint bitStart - uint len + 1)) (mask (unat len)))) t))
      else Inl Undefined_shift)"
  using writeWord_mosi
  by (simp add: writeBitsW_rest_def field_mask_exp Let_def split_def)

lemma writeBits_false_iff:
  "(\<exists>t. writeBits n dev regAddr bitStart len data b s = Inr (Some False, t)) \<longleftrightarrow>
   fst (readByte n dev regAddr (\<lambda>_. b) s) = Some 0"
proof -
  obtain c mem t where r: "readByte n dev regAddr (\<lambda>_. b) s = (c, mem, t)"
    by (cases "readByte n dev regAddr (\<lambda>_. b) s")
  show ?thesis
  proof (cases c)
    case None
    with r show ?thesis by (simp add: writeBits_def writeBits_rest_def)
  next
    case (Some count)
    with r show ?thesis by (simp add: writeBits_def writeBits_rest_eq)
  qed
qed

lemma writeBitsW_false_iff:
  "(\<exists>t. writeBitsW n dev regAddr bitStart len data w s = Inr (Some False, t)) \<longleftrightarrow>
   fst (readWord n dev regAddr (\<lambda>_. w) s) = Some 0"
proof -
  obtain c mem t where r: "readWord n dev regAddr (\<lambda>_. w) s = (c, mem, t)"
    by (cases "readWord n dev regAddr (\<lambda>_. w) s")
  show ?thesis
  proof (cases c)
    case None
    with r show ?thesis by (simp add: writeBitsW_def writeBitsW_rest_def)
  next
    case (Some count)
    with r show ?thesis by (simp add: writeBitsW_def writeBitsW_rest_eq)
  qed
qed

lemma writeBits_call:
  "writeBits (Suc n) dev regAddr bitStart len data b s =
     (if shift_defined (uint len) \<and> shift_defined (uint bitStart - uint len + 1)
      then Inr (Some True, snd (writeByte dev regAddr
        ((fst (snd (readByte (Suc n) dev regAddr (\<lambda>_. b) s)) 0 AND
            NOT (push_bit (nat (uint bitStart - uint len + 1)) (mask (unat len)))) OR
         (push_bit (nat (uint bitStart - uint len + 1)) data AND
          push_bit (nat (uint bitStart - uint len + 1)) (mask (unat len))))
        (snd (snd (readByte (Suc n) dev regAddr (\<lambda>_. b) s)))))
      else Inl Undefined_shift)"
proof -
  obtain mem t where r: "readByte (Suc n) dev regAddr (\<lambda>_. b) s = (Some 1, mem, t)"
    using readByte_then_writeByte [of n dev regAddr "\<lambda>_. b" s]
    by (cases "readByte (Suc n) dev regAddr (\<lambda>_. b) s") simp
  show ?thesis unfolding writeBits_def r writeBits_rest_eq by simp
qed

lemma writeBitsW_call:
  "writeBitsW (Suc (Suc n)) dev regAddr bitStart len data w s =
     (if shift_defined (uint len) \<and> shift_defined (uint bitStart - uint len + 1)
      then Inr (Some True, snd (writeWord dev regAddr
        ((fst (snd (readWord (Suc (Suc n)) dev regAddr (\<lambda>_. w) s)) 0 AND
            NOT (push_bit (nat (uint bitStart - uint len + 1)) (mask (unat len)))) OR
         (push_bit (nat (uint bitStart - uint len + 1)) data AND
          push_bit (nat (uint bitStart - uint len + 1)) (mask (unat len))))
        (snd (snd (readWord (Suc (Suc n)) dev regAddr (\<lambda>_. w) s)))))
      else Inl Undefined_shift)"
proof -
  obtain mem t where r: "readWord (Suc (Suc n)) dev regAddr (\<lambda>_. w) s = (Some 1, mem, t)"
    using readWord_then_writeWord [of n dev regAddr "\<lambda>_. w" s]
    by (cases "readWord (Suc (Suc n)) dev regAddr (\<lambda>_. w) s") simp
  show ?thesis unfolding writeBitsW_def r writeBitsW_rest_eq by simp
qed

lemma bit_of_int:
  "(word_of_int (push_bit k 1) :: 'a::len word) = push_bit k 1"
  "(word_of_int (NOT (push_bit k 1)) :: 'a::len word) = NOT (push_bit k 1)"
  by (simp_all add: of_int_push_bit of_int_not_eq)

lemma writeBit_rest_eq:
  "writeBit_rest dev regAddr bitNum data (Some count, mem, t) =
     (if shift_defined (uint bitNum)
      then Inr (Some True, snd (writeByte dev regAddr
        (if data \<noteq> 0 then mem 0 OR push_bit (unat bitNum) 1
         else mem 0 AND NOT (push_bit (unat bitNum) 1)) t))
      else Inl Undefined_shift)"
  using writeByte_mosi unfolding writeBit_rest_def bit_of_int
  by (simp add: Let_def split_def)

lemma writeBitW_rest_eq:
  "writeBitW_rest dev regAddr bitNum data (Some count, mem, t) =
     (if shift_defined (uint bitNum)
      then Inr (Some True, snd (writeWord dev regAddr
        (if data \<noteq> 0 then mem 0 OR push_bit (unat bitNum) 1
         else mem 0 AND NOT (push_bit (unat bitNum) 1)) t))
      else Inl Undefined_shift)"
  using writeWord_mosi unfolding writeBitW_rest_def bit_of_int
  by (simp add: Let_def split_def)

lemma writeBit_call:
  "writeBit (Suc n) dev regAddr bitNum data b s =
     (if shift_defined (uint bitNum)
      then Inr (Some True, snd (writeByte dev regAddr
        (if data \<noteq> 0
         then fst (snd (readByte (Suc n) dev regAddr (\<lambda>_. b) s)) 0 OR push_bit (unat bitNum) 1
         else fst (snd (readByte (Suc n) dev regAddr (\<lambda>_. b) s)) 0 AND
           NOT (push_bit (unat bitNum) 1))
        (snd (snd (readByte (Suc n) dev regAddr (\<lambda>_. b) s)))))
      else Inl Undefined_shift)"
proof -
  obtain mem t where r: "readByte (Suc n) dev regAddr (\<lambda>_. b) s = (Some 1, mem, t)"
    using readByte_then_writeByte [of n dev regAddr "\<lambda>_. b" s]
    by (cases "readByte (Suc n) dev regAddr (\<lambda>_. b) s") simp
  show ?thesis unfolding writeBit_def r writeBit_rest_eq by simp
qed

lemma writeBitW_call:
  "writeBitW (Suc (Suc n)) dev regAddr bitNum data w s =
     (if shift_defined (uint bitNum)
      then Inr (Some True, snd (writeWord dev regAddr
        (if data \<noteq> 0
         then fst (snd (readWord (Suc (Suc n)) dev regAddr (\<lambda>_. w) s)) 0 OR
           push_bit (unat bitNum) 1
         else fst (snd (readWord (Suc (Suc n)) dev regAddr (\<lambda>_. w) s)) 0 AND
           NOT (push_bit (unat bitNum) 1))
        (snd (snd (readWord (Suc (Suc n)) dev regAddr (\<lambda>_. w) s)))))
      else Inl Undefined_shift)"
proof -
  obtain mem t where r: "readWord (Suc (Suc n)) dev regAddr (\<lambda>_. w) s = (Some 1, mem, t)"
    using readWord_then_writeWord [of n dev regAddr "\<lambda>_. w" s]
    by (cases "readWord (Suc (Suc n)) dev regAddr (\<lambda>_. w) s") simp
  show ?thesis unfolding writeBitW_def r writeBitW_rest_eq by simp
qed

lemma readByte_value:
  "fst (snd (readByte (Suc n) dev regAddr data s)) 0 =
     miso (emitted s (snd (snd (readByte (Suc n) dev regAddr data s)))) ! 1"
  by (simp add: readByte_returns Let_def emitted_def)

lemma readWord_value:
  "fst (snd (readWord (Suc (Suc n)) dev regAddr data s)) 0 =
     (if dataOrder s = 0
      then data 0 OR
        ucast (miso (emitted s (snd (snd (readWord (Suc (Suc n)) dev regAddr data s)))) ! 1)
      else push_bit 8
          (ucast (miso (emitted s (snd (snd (readWord (Suc (Suc n)) dev regAddr data s)))) ! 1)) OR
        ucast (miso (emitted s (snd (snd (readWord (Suc (Suc n)) dev regAddr data s)))) ! 2))"
proof (cases "dataOrder s = 0")
  case True
  then show ?thesis
    by (simp add: readWord_returns_lsb [OF True] Let_def emitted_def)
next
  case False
  then show ?thesis
    by (simp add: readWord_returns_msb [OF False] Let_def emitted_def)
qed


text \<open>
  C7. \<open>writeBits\<close> returns false exactly when its \<open>readByte\<close> returned a count of 0,
  and \<open>writeBitsW\<close> exactly when its \<open>readWord\<close> did. After a read that returned 0
  the rest of the body returns false and leaves the bus as it is. After a read that
  returned another count, and so in every call whose read has returned (it returns 1),
  the call sends one write transaction, the register address followed by the unit read
  from the device with the field replaced, and returns what the write returned, which
  is true; a field whose shifts are undefined has the result \<open>Undefined_shift\<close>
  instead.
\<close>

theorem writeBits_short_circuit:
  "((\<exists>t. writeBits n dev regAddr bitStart len data b s = Inr (Some False, t)) \<longleftrightarrow>
      fst (readByte n dev regAddr (\<lambda>_. b) s) = Some 0) \<and>
   ((\<exists>t. writeBitsW n dev regAddr bitStart len dataW w s = Inr (Some False, t)) \<longleftrightarrow>
      fst (readWord n dev regAddr (\<lambda>_. w) s) = Some 0) \<and>
   writeBits_rest dev regAddr bitStart len data (Some count, mem, t) =
     (if count = 0 then Inr (Some False, t)
      else if shift_defined (uint len) \<and> shift_defined (uint bitStart - uint len + 1)
      then Inr (Some True, snd (writeByte dev regAddr
        ((mem 0 AND NOT (push_bit (nat (uint bitStart - uint len + 1)) (mask (unat len)))) OR
         (push_bit (nat (uint bitStart - uint len + 1)) data AND
          push_bit (nat (uint bitStart - uint len + 1)) (mask (unat len)))) t))
      else Inl Undefined_shift) \<and>
   writeBitsW_rest dev regAddr bitStart len dataW (Some count, memW, t) =
     (if count = 0 then Inr (Some False, t)
      else if shift_defined (uint len) \<and> shift_defined (uint bitStart - uint len + 1)
      then Inr (Some True, snd (writeWord dev regAddr
        ((memW 0 AND NOT (push_bit (nat (uint bitStart - uint len + 1)) (mask (unat len)))) OR
         (push_bit (nat (uint bitStart - uint len + 1)) dataW AND
          push_bit (nat (uint bitStart - uint len + 1)) (mask (unat len)))) t))
      else Inl Undefined_shift) \<and>
   writeBits (Suc n) dev regAddr bitStart len data b s =
     (if shift_defined (uint len) \<and> shift_defined (uint bitStart - uint len + 1)
      then Inr (Some True, snd (writeByte dev regAddr
        ((fst (snd (readByte (Suc n) dev regAddr (\<lambda>_. b) s)) 0 AND
            NOT (push_bit (nat (uint bitStart - uint len + 1)) (mask (unat len)))) OR
         (push_bit (nat (uint bitStart - uint len + 1)) data AND
          push_bit (nat (uint bitStart - uint len + 1)) (mask (unat len))))
        (snd (snd (readByte (Suc n) dev regAddr (\<lambda>_. b) s)))))
      else Inl Undefined_shift) \<and>
   fst (readByte (Suc n) dev regAddr (\<lambda>_. b) s) = Some 1 \<and>
   fst (snd (readByte (Suc n) dev regAddr (\<lambda>_. b) s)) 0 =
     miso (emitted s (snd (snd (readByte (Suc n) dev regAddr (\<lambda>_. b) s)))) ! 1 \<and>
   mosi (emitted s (snd (writeByte dev regAddr x
      (snd (snd (readByte (Suc n) dev regAddr (\<lambda>_. b) s)))))) =
     [regAddr OR 0x80, 0, regAddr, x] \<and>
   writeBitsW (Suc (Suc n)) dev regAddr bitStart len dataW w s =
     (if shift_defined (uint len) \<and> shift_defined (uint bitStart - uint len + 1)
      then Inr (Some True, snd (writeWord dev regAddr
        ((fst (snd (readWord (Suc (Suc n)) dev regAddr (\<lambda>_. w) s)) 0 AND
            NOT (push_bit (nat (uint bitStart - uint len + 1)) (mask (unat len)))) OR
         (push_bit (nat (uint bitStart - uint len + 1)) dataW AND
          push_bit (nat (uint bitStart - uint len + 1)) (mask (unat len))))
        (snd (snd (readWord (Suc (Suc n)) dev regAddr (\<lambda>_. w) s)))))
      else Inl Undefined_shift) \<and>
   fst (readWord (Suc (Suc n)) dev regAddr (\<lambda>_. w) s) = Some 1 \<and>
   mosi (emitted s (snd (writeWord dev regAddr y
      (snd (snd (readWord (Suc (Suc n)) dev regAddr (\<lambda>_. w) s)))))) =
     (regAddr OR 0x80) # replicate (if dataOrder s = 0 then 1 else 2) 0 @
       [regAddr, ucast (drop_bit 8 y), ucast y]"
  using writeBits_false_iff [of n dev regAddr bitStart len data b s]
    writeBitsW_false_iff [of n dev regAddr bitStart len dataW w s]
    writeBits_rest_eq [of dev regAddr bitStart len data count mem t]
    writeBitsW_rest_eq [of dev regAddr bitStart len dataW count memW t]
    writeBits_call [of n dev regAddr bitStart len data b s]
    writeBitsW_call [of n dev regAddr bitStart len dataW w s]
    readByte_then_writeByte [of n dev regAddr "\<lambda>_. b" s x]
    readByte_value [of n dev regAddr "\<lambda>_. b" s]
    readWord_then_writeWord [of n dev regAddr "\<lambda>_. w" s y]
  by (intro conjI) blast+



theorem writeBits_short_circuit_witness:
  "(\<exists>t. writeBits 1 (answering 0xAF) 0x10 4 3 2 0 power_on = Inr (Some True, t) \<and>
        mosi (emitted power_on t) = [0x90, 0, 0x10, 0xAB]) \<and>
   writeBits_rest (answering 0xAF) 0x10 4 3 2 (Some 0, (\<lambda>_. 0xAF), power_on) =
     Inr (Some False, power_on) \<and>
   writeBits_rest (answering 0xAF) 0x10 0 3 2 (Some 1, (\<lambda>_. 0xAF), power_on) =
     Inl Undefined_shift"
proof -
  let ?A = "answering 0xAF"
  let ?T = "snd (snd (readByte (Suc 0) ?A 0x10 (\<lambda>_. 0) power_on))"
  note sc = writeBits_short_circuit [where dev = ?A and regAddr = "0x10"
      and len = 3 and data = 2 and mem = "\<lambda>_. 0xAF" and t = power_on and s = power_on
      and b = 0 and n = 0 and x = "0xAB" and bitStart = 4 and count = 0]
  note sc' = writeBits_short_circuit [where dev = ?A and regAddr = "0x10"
      and len = 3 and data = 2 and mem = "\<lambda>_. 0xAF" and t = power_on and s = power_on
      and b = 0 and n = 0 and x = "0xAB" and bitStart = 0 and count = 1]
  note rest = sc [THEN conjunct2, THEN conjunct2, THEN conjunct1]
  note rest' = sc' [THEN conjunct2, THEN conjunct2, THEN conjunct1]
  note call = sc [THEN conjunct2, THEN conjunct2, THEN conjunct2, THEN conjunct2,
      THEN conjunct1]
  note sent = sc [THEN conjunct2, THEN conjunct2, THEN conjunct2, THEN conjunct2,
      THEN conjunct2, THEN conjunct2, THEN conjunct2, THEN conjunct1]
  have d: "shift_defined (uint (3 :: u8))" "shift_defined (uint (4 :: u8) - uint (3 :: u8) + 1)"
    "\<not> shift_defined (uint (0 :: u8) - uint (3 :: u8) + 1)"
    by (simp_all add: shift_defined_def)
  have r: "fst (snd (readByte (Suc 0) ?A 0x10 (\<lambda>_. 0) power_on)) 0 = 0xAF"
    by (simp add: readByte_returns Let_def answering_def)
  have m: "((0xAF :: u8) AND NOT (push_bit (nat (uint (4 :: u8) - uint (3 :: u8) + 1))
        (mask (unat (3 :: u8))))) OR
      (push_bit (nat (uint (4 :: u8) - uint (3 :: u8) + 1)) 2 AND
       push_bit (nat (uint (4 :: u8) - uint (3 :: u8) + 1)) (mask (unat (3 :: u8)))) = 0xAB"
    by (simp add: mask_eq_exp_minus_1)
  have "writeBits (Suc 0) ?A 0x10 4 3 2 0 power_on =
      Inr (Some True, snd (writeByte ?A 0x10 0xAB ?T))"
    using d(1,2) unfolding call r m by simp
  moreover have "mosi (emitted power_on (snd (writeByte ?A 0x10 0xAB ?T))) =
      [0x90, 0, 0x10, 0xAB]"
    using sent by simp
  ultimately have whole: "\<exists>t. writeBits 1 ?A 0x10 4 3 2 0 power_on =
      Inr (Some True, t) \<and> mosi (emitted power_on t) = [0x90, 0, 0x10, 0xAB]"
    by simp
  have zero: "writeBits_rest ?A 0x10 4 3 2 (Some 0, (\<lambda>_. 0xAF), power_on) =
     Inr (Some False, power_on)"
    unfolding rest by simp
  have undef: "writeBits_rest ?A 0x10 0 3 2 (Some 1, (\<lambda>_. 0xAF), power_on) =
     Inl Undefined_shift"
    using d(3) unfolding rest' by simp
  from whole zero undef show ?thesis by blast
qed


text \<open>
  C10. Whatever count the read returned, 0 included, the rest of \<open>writeBit\<close> and of
  \<open>writeBitW\<close> writes the unit back with the bit set or cleared, in one write
  transaction, and returns what the write returned. So a call, once its read has
  returned, has put on the bus the read transaction and then the register address
  followed by the unit received from the device with the bit set or cleared, and has
  returned true; a bit number whose shift is undefined has the result
  \<open>Undefined_shift\<close> instead.
\<close>

theorem writeBit_ignores_count:
  "writeBit_rest dev regAddr bitNum data (Some count, mem, t) =
     (if shift_defined (uint bitNum)
      then Inr (Some True, snd (writeByte dev regAddr
        (if data \<noteq> 0 then mem 0 OR push_bit (unat bitNum) 1
         else mem 0 AND NOT (push_bit (unat bitNum) 1)) t))
      else Inl Undefined_shift) \<and>
   writeBitW_rest dev regAddr bitNum dataW (Some count, memW, t) =
     (if shift_defined (uint bitNum)
      then Inr (Some True, snd (writeWord dev regAddr
        (if dataW \<noteq> 0 then memW 0 OR push_bit (unat bitNum) 1
         else memW 0 AND NOT (push_bit (unat bitNum) 1)) t))
      else Inl Undefined_shift) \<and>
   writeBit (Suc n) dev regAddr bitNum data b s =
     (if shift_defined (uint bitNum)
      then Inr (Some True, snd (writeByte dev regAddr
        (if data \<noteq> 0
         then fst (snd (readByte (Suc n) dev regAddr (\<lambda>_. b) s)) 0 OR push_bit (unat bitNum) 1
         else fst (snd (readByte (Suc n) dev regAddr (\<lambda>_. b) s)) 0 AND
           NOT (push_bit (unat bitNum) 1))
        (snd (snd (readByte (Suc n) dev regAddr (\<lambda>_. b) s)))))
      else Inl Undefined_shift) \<and>
   fst (snd (readByte (Suc n) dev regAddr (\<lambda>_. b) s)) 0 =
     miso (emitted s (snd (snd (readByte (Suc n) dev regAddr (\<lambda>_. b) s)))) ! 1 \<and>
   mosi (emitted s (snd (writeByte dev regAddr x
      (snd (snd (readByte (Suc n) dev regAddr (\<lambda>_. b) s)))))) =
     [regAddr OR 0x80, 0, regAddr, x] \<and>
   writeBitW (Suc (Suc n)) dev regAddr bitNum dataW w s =
     (if shift_defined (uint bitNum)
      then Inr (Some True, snd (writeWord dev regAddr
        (if dataW \<noteq> 0
         then fst (snd (readWord (Suc (Suc n)) dev regAddr (\<lambda>_. w) s)) 0 OR
           push_bit (unat bitNum) 1
         else fst (snd (readWord (Suc (Suc n)) dev regAddr (\<lambda>_. w) s)) 0 AND
           NOT (push_bit (unat bitNum) 1))
        (snd (snd (readWord (Suc (Suc n)) dev regAddr (\<lambda>_. w) s)))))
      else Inl Undefined_shift) \<and>
   fst (snd (readWord (Suc (Suc n)) dev regAddr (\<lambda>_. w) s)) 0 =
     (if dataOrder s = 0
      then w OR
        ucast (miso (emitted s (snd (snd (readWord (Suc (Suc n)) dev regAddr (\<lambda>_. w) s)))) ! 1)
      else push_bit 8
          (ucast (miso (emitted s
            (snd (snd (readWord (Suc (Suc n)) dev regAddr (\<lambda>_. w) s)))) ! 1)) OR
        ucast (miso (emitted s
          (snd (snd (readWord (Suc (Suc n)) dev regAddr (\<lambda>_. w) s)))) ! 2)) \<and>
   mosi (emitted s (snd (writeWord dev regAddr y
      (snd (snd (readWord (Suc (Suc n)) dev regAddr (\<lambda>_. w) s)))))) =
     (regAddr OR 0x80) # replicate (if dataOrder s = 0 then 1 else 2) 0 @
       [regAddr, ucast (drop_bit 8 y), ucast y]"
  using writeBit_rest_eq [of dev regAddr bitNum data count mem t]
    writeBitW_rest_eq [of dev regAddr bitNum dataW count memW t]
    writeBit_call [of n dev regAddr bitNum data b s]
    writeBitW_call [of n dev regAddr bitNum dataW w s]
    readByte_then_writeByte [of n dev regAddr "\<lambda>_. b" s x]
    readByte_value [of n dev regAddr "\<lambda>_. b" s]
    readWord_value [of n dev regAddr "\<lambda>_. w" s]
    readWord_then_writeWord [of n dev regAddr "\<lambda>_. w" s y]
  by (intro conjI) blast+


theorem writeBit_ignores_count_witness:
  "(\<exists>t. writeBit 1 (answering 0) 0x10 5 1 0 power_on = Inr (Some True, t) \<and>
        mosi (emitted power_on t) = [0x90, 0, 0x10, 0x20]) \<and>
   (\<exists>t. writeBit_rest (answering 0) 0x10 5 1 (Some 0, (\<lambda>_. 0), power_on) = Inr (Some True, t) \<and>
        mosi (emitted power_on t) = [0x10, 0x20])"
proof -
  let ?A = "answering 0"
  let ?T = "snd (snd (readByte (Suc 0) ?A 0x10 (\<lambda>_. 0) power_on))"
  note ic = writeBit_ignores_count [where dev = ?A and regAddr = "0x10"
      and bitNum = 5 and data = 1 and mem = "\<lambda>_. 0" and t = power_on and s = power_on
      and b = 0 and n = 0 and count = 0 and x = "0x20"]
  note rest = ic [THEN conjunct1]
  note call = ic [THEN conjunct2, THEN conjunct2, THEN conjunct1]
  note sent = ic [THEN conjunct2, THEN conjunct2, THEN conjunct2, THEN conjunct2,
      THEN conjunct1]
  have d: "shift_defined (uint (5 :: u8))" by (simp add: shift_defined_def)
  have r: "fst (snd (readByte (Suc 0) ?A 0x10 (\<lambda>_. 0) power_on)) 0 = 0"
    by (simp add: readByte_returns Let_def answering_def)
  have b: "(0 :: u8) OR push_bit (unat (5 :: u8)) 1 = 0x20" by simp
  have "writeBit (Suc 0) ?A 0x10 5 1 0 power_on =
      Inr (Some True, snd (writeByte ?A 0x10 0x20 ?T))"
    using d unfolding call r by (simp add: b)
  moreover have "mosi (emitted power_on (snd (writeByte ?A 0x10 0x20 ?T))) =
      [0x90, 0, 0x10, 0x20]"
    using sent by simp
  ultimately have whole: "\<exists>t. writeBit 1 ?A 0x10 5 1 0 power_on = Inr (Some True, t) \<and>
        mosi (emitted power_on t) = [0x90, 0, 0x10, 0x20]"
    by simp
  have "writeBit_rest ?A 0x10 5 1 (Some 0, (\<lambda>_. 0), power_on) =
      Inr (Some True, snd (writeByte ?A 0x10 0x20 power_on))"
    using d unfolding rest by (simp add: b)
  moreover have "mosi (emitted power_on (snd (writeByte ?A 0x10 0x20 power_on))) =
      [0x10, 0x20]"
    by (simp add: writeByte_mosi)
  ultimately show ?thesis using whole by blast
qed

section \<open>The bus configuration\<close>

text \<open>
  C6. The constructor stores the pin and the bit order but not the configuration it is
  given: the static member \<open>settings\<close> is what it was before, and that is what a later
  read acquires the bus with. Constructed on the power-on state with a 1 MHz, mode 3
  configuration, the handle still holds the default one.
\<close>

theorem constructor_drops_settings:
  "settings (SPIdev slavePin cfg order s) = settings s \<and>
   slave (SPIdev slavePin cfg order s) = slavePin \<and>
   dataOrder (SPIdev slavePin cfg order s) = order \<and>
   (\<exists>es. emitted (SPIdev slavePin cfg order s)
      (snd (snd (readBytes n dev regAddr len data (SPIdev slavePin cfg order s)))) =
      BeginTransaction (settings s) # es) \<and>
   settings (SPIdev 10 \<lparr>clock = 1000000, bitOrder = 1, dataMode = 3\<rparr> 1 power_on) =
     SPISettings_default \<and>
   SPISettings_default \<noteq> \<lparr>clock = 1000000, bitOrder = 1, dataMode = 3\<rparr>"
proof -
  have f: "settings (SPIdev slavePin cfg order s) = settings s"
    "slave (SPIdev slavePin cfg order s) = slavePin"
    "dataOrder (SPIdev slavePin cfg order s) = order" for slavePin cfg order s
    by (simp_all add: SPIdev_def pinMode_OUTPUT_def SPI_begin_call_def emit_def)
  obtain r es where "wire (snd (snd (readBytes n dev regAddr len data
      (SPIdev slavePin cfg order s)))) =
     wire (SPIdev slavePin cfg order s) @
       BeginTransaction (settings (SPIdev slavePin cfg order s)) #
       DigitalWrite (slave (SPIdev slavePin cfg order s)) LOW #
       Transfer (regAddr OR 0x80) r # es"
    using readBytes_opening by blast
  then have "\<exists>es. emitted (SPIdev slavePin cfg order s)
      (snd (snd (readBytes n dev regAddr len data (SPIdev slavePin cfg order s)))) =
      BeginTransaction (settings s) # es"
    unfolding f by (simp add: emitted_def)
  moreover have "settings power_on = SPISettings_default" by (simp add: power_on_def)
  moreover have "SPISettings_default \<noteq> \<lparr>clock = 1000000, bitOrder = 1, dataMode = 3\<rparr>"
    by (simp add: SPISettings_default_def)
  ultimately show ?thesis by (simp add: f)
qed



section \<open>The round trip of a bit field\<close>

lemma field_round_trip:
  fixes old v :: u8
  assumes "sh + len \<le> 8"
  shows "drop_bit sh (((old AND NOT (push_bit sh (mask len))) OR
           (push_bit sh v AND push_bit sh (mask len))) AND push_bit sh (mask len)) =
         take_bit len v"
proof (rule bit_word_eqI)
  fix i
  assume "i < LENGTH(8)"
  with assms show "bit (drop_bit sh (((old AND NOT (push_bit sh (mask len))) OR
           (push_bit sh v AND push_bit sh (mask len))) AND push_bit sh (mask len))) i =
         bit (take_bit len v) i"
    by (auto simp: bit_simps)
qed

lemma field_outside:
  fixes old v :: u8
  assumes "\<not> (sh \<le> i \<and> i < sh + len)"
  shows "bit ((old AND NOT (push_bit sh (mask len))) OR
           (push_bit sh v AND push_bit sh (mask len))) i = bit old i"
  using assms by (auto simp: bit_simps dest: bit_imp_le_length)

lemma register_content_split:
  "\<exists>p. foldl register_step (Idle, r0) es = (p, register_content r0 es)"
  by (cases "foldl register_step (Idle, r0) es") (simp add: register_content_def)

lemma register_after_address:
  "register_content r0 (es @ [BeginTransaction cfg, DigitalWrite pin LOW]) =
     register_content r0 es"
  "register_content r0 (es @ [BeginTransaction cfg, DigitalWrite pin LOW, Transfer a x]) =
     register_content r0 es"
  by (cases "foldl register_step (Idle, r0) es"; simp add: register_content_def)+

lemma register_after_read:
  "bit a 7 \<Longrightarrow>
   register_content r0 (es @ [BeginTransaction cfg, DigitalWrite pin LOW, Transfer a x,
     Transfer out y, DigitalWrite pin HIGH, EndTransaction]) = register_content r0 es"
  by (cases "foldl register_step (Idle, r0) es"; simp add: register_content_def)+

lemma register_after_write:
  "\<not> bit a 7 \<Longrightarrow>
   register_content r0 (es @ [BeginTransaction cfg, DigitalWrite pin LOW, Transfer a x,
     Transfer out y, DigitalWrite pin HIGH, EndTransaction]) = out"
  by (cases "foldl register_step (Idle, r0) es"; simp add: register_content_def)+

lemma readByte_register:
  "readByte (Suc n) (register_device r0) regAddr data s =
     (Some 1, data(0 := register_content r0 (wire s)),
      s\<lparr>wire := wire s @ [BeginTransaction (settings s), DigitalWrite (slave s) LOW,
        Transfer (regAddr OR 0x80) (register_content r0 (wire s)),
        Transfer 0 (register_content r0 (wire s)),
        DigitalWrite (slave s) HIGH, EndTransaction]\<rparr>)"
  unfolding readByte_returns Let_def register_device_def
  using register_after_address [of r0 "wire s"] by simp

lemma writeByte_register:
  "writeByte (register_device r0) regAddr b s =
     (True,
      s\<lparr>wire := wire s @ [BeginTransaction (settings s), DigitalWrite (slave s) LOW,
        Transfer regAddr (register_content r0 (wire s)),
        Transfer b (register_content r0 (wire s)),
        DigitalWrite (slave s) HIGH, EndTransaction]\<rparr>)"
  unfolding writeByte_returns Let_def register_device_def
  using register_after_address [of r0 "wire s"] by simp





text \<open>
  C2. For a register address in 0-127, a field of \<open>len\<close> bits (1 to 8) whose most
  significant bit is \<open>bitStart\<close> (from \<open>len - 1\<close> to 7), a value \<open>v\<close> and a register
  that reads back what was written: \<open>writeBits\<close> returns true after a read and a write
  transaction; the byte it writes, which is then the register's content, agrees with
  the content before on every bit outside the field; and a following \<open>readBits\<close> of
  the same field returns one unit and the value \<open>v\<close> masked to \<open>len\<close> bits.
\<close>

theorem writeBits_readBits_round_trip:
  assumes "regAddr \<le> 0x7F"
    and "1 \<le> uint len" "uint len \<le> 8"
    and "uint len - 1 \<le> uint bitStart" "uint bitStart \<le> 7"
  shows "\<exists>s1 s2.
    writeBits (Suc n) (register_device reg) regAddr bitStart len v b s = Inr (Some True, s1) \<and>
    mosi (emitted s s1) = [regAddr OR 0x80, 0, regAddr, register_content reg (wire s1)] \<and>
    (\<forall>i. \<not> (nat (uint bitStart - uint len + 1) \<le> i \<and> i \<le> unat bitStart) \<longrightarrow>
       bit (register_content reg (wire s1)) i = bit (register_content reg (wire s)) i) \<and>
    readBits (Suc m) (register_device reg) regAddr bitStart len d b' s1 =
      Inr (Some 1, take_bit (unat len) v, s2)"
proof -
  let ?dev = "register_device reg"
  let ?old = "register_content reg (wire s)"
  let ?sh = "nat (uint bitStart - uint len + 1)"
  let ?M = "push_bit ?sh (mask (unat len)) :: u8"
  let ?w = "(?old AND NOT ?M) OR (push_bit ?sh v AND ?M)"
  let ?RF = "[BeginTransaction (settings s), DigitalWrite (slave s) LOW,
        Transfer (regAddr OR 0x80) ?old, Transfer 0 ?old,
        DigitalWrite (slave s) HIGH, EndTransaction]"
  let ?WF = "[BeginTransaction (settings s), DigitalWrite (slave s) LOW,
        Transfer regAddr ?old, Transfer ?w ?old,
        DigitalWrite (slave s) HIGH, EndTransaction]"
  let ?s1 = "s\<lparr>wire := wire s @ ?RF\<rparr>"
  let ?s2 = "s\<lparr>wire := wire s @ ?RF @ ?WF\<rparr>"
  let ?s3 = "?s2\<lparr>wire := wire ?s2 @ [BeginTransaction (settings s), DigitalWrite (slave s) LOW,
        Transfer (regAddr OR 0x80) ?w, Transfer 0 ?w,
        DigitalWrite (slave s) HIGH, EndTransaction]\<rparr>"
  from discriminator [OF assms(1)] have d7: "bit (regAddr OR 0x80) 7" "\<not> bit regAddr 7"
    by simp_all
  have fit: "?sh + unat len \<le> 8" "?sh + unat len = Suc (unat bitStart)"
    using assms(2-5) by (simp_all add: unat_eq_nat_uint del: nat_uint_eq)
  have def: "shift_defined (uint len)" "shift_defined (uint bitStart - uint len + 1)"
    using assms(2-5) by (simp_all add: shift_defined_def)
  have one: "(1 :: s8) \<noteq> 0" by simp
  have old1: "register_content reg (wire ?s1) = ?old"
    using register_after_read [OF d7(1), of reg "wire s"] by simp
  have W: "writeBits (Suc n) ?dev regAddr bitStart len v b s = Inr (Some True, ?s2)"
    unfolding writeBits_def readByte_register writeBits_rest_eq writeByte_register old1
    using def one by simp
  have new: "register_content reg (wire ?s2) = ?w"
    using register_after_write [OF d7(2), of reg "wire s @ ?RF"] by simp
  have R: "readBits (Suc m) ?dev regAddr bitStart len d b' ?s2 =
      Inr (Some 1, drop_bit ?sh (?w AND ?M), ?s3)"
    unfolding readBits_def readByte_register new
    using def by (simp add: field_mask_exp Let_def)
  have rt: "drop_bit ?sh (?w AND ?M) = take_bit (unat len) v"
    by (rule field_round_trip [OF fit(1)])
  have out: "bit ?w i = bit ?old i" if "\<not> (?sh \<le> i \<and> i \<le> unat bitStart)" for i
  proof (rule field_outside)
    from that fit(2) show "\<not> (?sh \<le> i \<and> i < ?sh + unat len)"
      by (auto simp: less_Suc_eq_le)
  qed
  have m: "mosi (emitted s ?s2) = [regAddr OR 0x80, 0, regAddr, ?w]"
    by (simp add: emitted_def)
  have "writeBits (Suc n) ?dev regAddr bitStart len v b s = Inr (Some True, ?s2) \<and>
    mosi (emitted s ?s2) = [regAddr OR 0x80, 0, regAddr, register_content reg (wire ?s2)] \<and>
    (\<forall>i. \<not> (?sh \<le> i \<and> i \<le> unat bitStart) \<longrightarrow>
       bit (register_content reg (wire ?s2)) i = bit (register_content reg (wire s)) i) \<and>
    readBits (Suc m) ?dev regAddr bitStart len d b' ?s2 =
      Inr (Some 1, take_bit (unat len) v, ?s3)"
    unfolding new using W R m out unfolding rt by blast
  then show ?thesis by blast
qed

theorem writeBits_readBits_round_trip_witness:
  "(0x10 :: u8) \<le> 0x7F \<and> 1 \<le> uint (3 :: u8) \<and> uint (3 :: u8) \<le> 8 \<and>
   uint (3 :: u8) - 1 \<le> uint (4 :: u8) \<and> uint (4 :: u8) \<le> 7 \<and>
   \<not> (nat (uint (4 :: u8) - uint (3 :: u8) + 1) \<le> 7 \<and> 7 \<le> unat (4 :: u8)) \<and>
   (\<exists>s1 s2.
      writeBits 1 (register_device 0xAF) 0x10 4 3 0xFA 0 power_on = Inr (Some True, s1) \<and>
      bit (register_content 0xAF (wire s1)) 7 \<and>
      readBits 1 (register_device 0xAF) 0x10 4 3 0 0 s1 = Inr (Some 1, 2, s2))"
proof -
  have h: "(0x10 :: u8) \<le> 0x7F" "1 \<le> uint (3 :: u8)" "uint (3 :: u8) \<le> 8"
    "uint (3 :: u8) - 1 \<le> uint (4 :: u8)" "uint (4 :: u8) \<le> 7"
    by simp_all
  have o: "\<not> (nat (uint (4 :: u8) - uint (3 :: u8) + 1) \<le> 7 \<and> 7 \<le> unat (4 :: u8))"
    by simp
  have t: "take_bit (unat (3 :: u8)) (0xFA :: u8) = 2"
    by (simp add: take_bit_eq_mod)
  have b: "bit (register_content 0xAF (wire power_on)) 7"
    by (simp add: register_content_def power_on_def)
  from writeBits_readBits_round_trip [OF h, where n = 0 and m = 0 and reg = "0xAF"
      and v = "0xFA" and b = 0 and s = power_on and d = 0 and b' = 0]
  obtain s1 s2 where rt:
    "writeBits (Suc 0) (register_device 0xAF) 0x10 4 3 0xFA 0 power_on = Inr (Some True, s1)"
    "\<forall>i. \<not> (nat (uint (4 :: u8) - uint (3 :: u8) + 1) \<le> i \<and> i \<le> unat (4 :: u8)) \<longrightarrow>
       bit (register_content 0xAF (wire s1)) i = bit (register_content 0xAF (wire power_on)) i"
    "readBits (Suc 0) (register_device 0xAF) 0x10 4 3 0 0 s1 =
      Inr (Some 1, take_bit (unat (3 :: u8)) 0xFA, s2)"
    by blast
  from rt(2) o b have "bit (register_content 0xAF (wire s1)) 7" by blast
  with rt(1,3) have "\<exists>s1 s2.
      writeBits 1 (register_device 0xAF) 0x10 4 3 0xFA 0 power_on = Inr (Some True, s1) \<and>
      bit (register_content 0xAF (wire s1)) 7 \<and>
      readBits 1 (register_device 0xAF) 0x10 4 3 0 0 s1 = Inr (Some 1, 2, s2)"
    unfolding t by auto
  with h o show ?thesis by blast
qed

section \<open>The ignored device address and timeout\<close>

lemma emit_timeout: "emit e (s\<lparr>readTimeout := t\<rparr>) = (emit e s)\<lparr>readTimeout := t\<rparr>"
  by (simp add: emit_def)

lemma SPI_transfer_timeout:
  "SPI_transfer dev out (s\<lparr>readTimeout := t\<rparr>) = apsnd (timeout_set t) (SPI_transfer dev out s)"
  by (simp add: SPI_transfer_eq emit_def)

lemma readBytes_loop_timeout:
  "readBytes_loop n dev len count data (s\<lparr>readTimeout := t\<rparr>) =
     apsnd (apsnd (apsnd (timeout_set t))) (readBytes_loop n dev len count data s)"
proof (induction n arbitrary: count data s)
  case 0
  show ?case by simp
next
  case (Suc n)
  have "readBytes_loop n dev len c d ((emit (Transfer 0 (dev (wire s) 0)) s)\<lparr>readTimeout := t\<rparr>) =
     apsnd (apsnd (apsnd (timeout_set t)))
       (readBytes_loop n dev len c d (emit (Transfer 0 (dev (wire s) 0)) s))" for c d
    by (rule Suc.IH)
  then show ?case
    by (simp add: SPI_transfer_eq emit_timeout)
qed

lemma readWords_loop_timeout:
  "readWords_loop n dev len count msb data (s\<lparr>readTimeout := t\<rparr>) =
     apsnd (apsnd (apsnd (timeout_set t))) (readWords_loop n dev len count msb data s)"
proof (induction n arbitrary: count msb data s)
  case 0
  show ?case by simp
next
  case (Suc n)
  have "readWords_loop n dev len c m d ((emit (Transfer 0 (dev (wire s) 0)) s)\<lparr>readTimeout := t\<rparr>) =
     apsnd (apsnd (apsnd (timeout_set t)))
       (readWords_loop n dev len c m d (emit (Transfer 0 (dev (wire s) 0)) s))" for c m d
    by (rule Suc.IH)
  then show ?case
    by (simp add: SPI_transfer_eq emit_timeout Let_def)
qed

lemma writeBytes_loop_timeout:
  "writeBytes_loop dev len data i (s\<lparr>readTimeout := t\<rparr>) =
     (writeBytes_loop dev len data i s)\<lparr>readTimeout := t\<rparr>"
proof (induction dev len data i s rule: writeBytes_loop.induct)
  case (1 dev len data i s)
  show ?case
  proof (cases "i < len")
    case True
    let ?r = "dev (wire s) (data (uint i))"
    let ?s = "emit (Transfer (data (uint i)) ?r) s"
    have "writeBytes_loop dev len data (i + 1) (?s\<lparr>readTimeout := t\<rparr>) =
        (writeBytes_loop dev len data (i + 1) ?s)\<lparr>readTimeout := t\<rparr>"
      using "1.IH" [OF True, of "(?r, ?s)" ?r ?s] by (simp add: SPI_transfer_eq)
    with True show ?thesis
      by (subst (1 2) writeBytes_loop.simps) (simp add: SPI_transfer_eq emit_timeout)
  next
    case False
    then show ?thesis by (subst (1 2) writeBytes_loop.simps) simp
  qed
qed

lemma writeWords_loop_timeout:
  "writeWords_loop dev len data i (s\<lparr>readTimeout := t\<rparr>) =
     (writeWords_loop dev len data i s)\<lparr>readTimeout := t\<rparr>"
proof (induction dev len data i s rule: writeWords_loop.induct)
  case (1 dev len data i s)
  show ?case
  proof (cases "i < len")
    case True
    let ?hi = "ucast (drop_bit 8 (data (uint i))) :: u8"
    let ?lo = "ucast (data (uint i)) :: u8"
    let ?r1 = "dev (wire s) ?hi"
    let ?s1 = "emit (Transfer ?hi ?r1) s"
    let ?r2 = "dev (wire ?s1) ?lo"
    let ?s2 = "emit (Transfer ?lo ?r2) ?s1"
    have "writeWords_loop dev len data (i + 1) (?s2\<lparr>readTimeout := t\<rparr>) =
        (writeWords_loop dev len data (i + 1) ?s2)\<lparr>readTimeout := t\<rparr>"
      using "1.IH" [OF True, of "(?r1, ?s1)" ?r1 ?s1 "(?r2, ?s2)" ?r2 ?s2]
      by (simp add: SPI_transfer_eq)
    with True show ?thesis
      by (subst (1 2) writeWords_loop.simps) (simp add: SPI_transfer_eq emit_timeout)
  next
    case False
    then show ?thesis by (subst (1 2) writeWords_loop.simps) simp
  qed
qed

lemma readBytes_timeout:
  "readBytes n dev regAddr len data (s\<lparr>readTimeout := t\<rparr>) =
     apsnd (apsnd (timeout_set t)) (readBytes n dev regAddr len data s)"
  by (simp add: readBytes_def bus_defs SPI_transfer_eq emit_timeout readBytes_loop_timeout
      split_def Let_def apsnd_def map_prod_def del: readBytes_loop.simps)

lemma readWords_timeout:
  "readWords n dev regAddr len data (s\<lparr>readTimeout := t\<rparr>) =
     apsnd (apsnd (timeout_set t)) (readWords n dev regAddr len data s)"
  by (simp add: readWords_def bus_defs SPI_transfer_eq emit_timeout readWords_loop_timeout
      split_def Let_def apsnd_def map_prod_def del: readWords_loop.simps)

lemma writeBytes_timeout:
  "writeBytes dev regAddr len data (s\<lparr>readTimeout := t\<rparr>) =
     apsnd (timeout_set t) (writeBytes dev regAddr len data s)"
  by (simp add: writeBytes_def bus_defs SPI_transfer_eq emit_timeout writeBytes_loop_timeout
      split_def Let_def)

lemma writeWords_timeout:
  "writeWords dev regAddr len data (s\<lparr>readTimeout := t\<rparr>) =
     apsnd (timeout_set t) (writeWords dev regAddr len data s)"
  by (simp add: writeWords_def bus_defs SPI_transfer_eq emit_timeout writeWords_loop_timeout
      split_def Let_def)


lemma readByte_timeout:
  "readByte n dev regAddr data (s\<lparr>readTimeout := t\<rparr>) =
     apsnd (apsnd (timeout_set t)) (readByte n dev regAddr data s)"
  by (simp add: readByte_def readBytes_timeout)

lemma readWord_timeout:
  "readWord n dev regAddr data (s\<lparr>readTimeout := t\<rparr>) =
     apsnd (apsnd (timeout_set t)) (readWord n dev regAddr data s)"
  by (simp add: readWord_def readWords_timeout)

lemma writeByte_timeout:
  "writeByte dev regAddr data (s\<lparr>readTimeout := t\<rparr>) =
     apsnd (timeout_set t) (writeByte dev regAddr data s)"
  by (simp add: writeByte_def writeBytes_timeout)

lemma writeWord_timeout:
  "writeWord dev regAddr data (s\<lparr>readTimeout := t\<rparr>) =
     apsnd (timeout_set t) (writeWord dev regAddr data s)"
  by (simp add: writeWord_def writeWords_timeout)

lemma readBit_timeout:
  "readBit n dev regAddr bitNum data b (s\<lparr>readTimeout := t\<rparr>) =
     map_sum id (apsnd (apsnd (timeout_set t))) (readBit n dev regAddr bitNum data b s)"
  by (cases "readByte n dev regAddr (\<lambda>_. b) s")
     (simp add: readBit_def readByte_timeout Let_def split: option.splits)

lemma readBitW_timeout:
  "readBitW n dev regAddr bitNum data b (s\<lparr>readTimeout := t\<rparr>) =
     map_sum id (apsnd (apsnd (timeout_set t))) (readBitW n dev regAddr bitNum data b s)"
  by (cases "readWord n dev regAddr (\<lambda>_. b) s")
     (simp add: readBitW_def readWord_timeout Let_def split: option.splits)

lemma readBits_timeout:
  "readBits n dev regAddr bitStart len data b (s\<lparr>readTimeout := t\<rparr>) =
     map_sum id (apsnd (apsnd (timeout_set t))) (readBits n dev regAddr bitStart len data b s)"
  by (cases "readByte n dev regAddr (\<lambda>_. b) s")
     (auto simp: readBits_def readByte_timeout Let_def split: option.splits)

lemma readBitsW_timeout:
  "readBitsW n dev regAddr bitStart len data w (s\<lparr>readTimeout := t\<rparr>) =
     map_sum id (apsnd (apsnd (timeout_set t))) (readBitsW n dev regAddr bitStart len data w s)"
  by (cases "readWord n dev regAddr (\<lambda>_. w) s")
     (auto simp: readBitsW_def readWord_timeout Let_def split: option.splits)

lemma writeBit_timeout:
  "writeBit n dev regAddr bitNum data b (s\<lparr>readTimeout := t\<rparr>) =
     map_sum id (apsnd (timeout_set t)) (writeBit n dev regAddr bitNum data b s)"
  by (cases "readByte n dev regAddr (\<lambda>_. b) s")
     (simp add: writeBit_def writeBit_rest_def readByte_timeout writeByte_timeout Let_def
        split_def split: option.splits)

lemma writeBitW_timeout:
  "writeBitW n dev regAddr bitNum data w (s\<lparr>readTimeout := t\<rparr>) =
     map_sum id (apsnd (timeout_set t)) (writeBitW n dev regAddr bitNum data w s)"
  by (cases "readWord n dev regAddr (\<lambda>_. w) s")
     (simp add: writeBitW_def writeBitW_rest_def readWord_timeout writeWord_timeout Let_def
        split_def split: option.splits)

lemma writeBits_timeout:
  "writeBits n dev regAddr bitStart len data b (s\<lparr>readTimeout := t\<rparr>) =
     map_sum id (apsnd (timeout_set t)) (writeBits n dev regAddr bitStart len data b s)"
  by (cases "readByte n dev regAddr (\<lambda>_. b) s")
     (auto simp: writeBits_def writeBits_rest_def readByte_timeout writeByte_timeout Let_def
        split_def split: option.splits)

lemma writeBitsW_timeout:
  "writeBitsW n dev regAddr bitStart len data w (s\<lparr>readTimeout := t\<rparr>) =
     map_sum id (apsnd (timeout_set t)) (writeBitsW n dev regAddr bitStart len data w s)"
  by (cases "readWord n dev regAddr (\<lambda>_. w) s")
     (auto simp: writeBitsW_def writeBitsW_rest_def readWord_timeout writeWord_timeout Let_def
        split_def split: option.splits)

lemma observable_read_timeout [simp]:
  "observable_read (apsnd (apsnd (timeout_set t)) x) = observable_read x"
  by (cases x) (simp add: observable_read_def)

lemma observable_write_timeout [simp]:
  "observable_write (apsnd (timeout_set t) x) = observable_write x"
  by (cases x) (simp add: observable_write_def)

lemma observable_read_fault [simp]:
  "map_sum id observable_read (map_sum id (apsnd (apsnd (timeout_set t))) x) =
     map_sum id observable_read x"
  by (cases x) simp_all

lemma observable_write_fault [simp]:
  "map_sum id observable_write (map_sum id (apsnd (timeout_set t)) x) =
     map_sum id observable_write x"
  by (cases x) simp_all

lemmas timeout_ignored =
  readBit_timeout readBitW_timeout readBits_timeout readBitsW_timeout
  readByte_timeout readWord_timeout readBytes_timeout readWords_timeout
  writeBit_timeout writeBitW_timeout writeBits_timeout writeBitsW_timeout
  writeByte_timeout writeWord_timeout writeBytes_timeout writeWords_timeout

lemmas devAddr_defs =
  readBit_devAddr_def readBitW_devAddr_def readBits_devAddr_def readBitsW_devAddr_def
  readByte_devAddr_def readWord_devAddr_def readBytes_devAddr_def readWords_devAddr_def
  writeBit_devAddr_def writeBitW_devAddr_def writeBits_devAddr_def writeBitsW_devAddr_def
  writeByte_devAddr_def writeWord_devAddr_def writeBytes_devAddr_def writeWords_devAddr_def


text \<open>
  C9. For each of the sixteen overloads with a device address: two calls that differ
  only in the device address, in the timeout argument and in the value of the static
  member \<open>readTimeout\<close> return the same value, leave the same buffer and put the same
  events on the bus.
\<close>


text \<open>
  C9. For each of the sixteen overloads with a device address: two calls that differ
  only in the device address, in the timeout argument and in the value of the static
  member \<open>readTimeout\<close> return the same value, leave the same buffer and put the same
  events on the bus (or both reach the same undefined shift).
\<close>

theorem devAddr_timeout_ignored:
  "map_sum id observable_read (readBit_devAddr n dev devAddr regAddr bitNum data timeout b
       (s\<lparr>readTimeout := t\<rparr>)) =
     map_sum id observable_read (readBit_devAddr n dev devAddr' regAddr bitNum data timeout' b
       (s\<lparr>readTimeout := t'\<rparr>)) \<and>
   map_sum id observable_read (readBitW_devAddr n dev devAddr regAddr bitNum dataW timeout w
       (s\<lparr>readTimeout := t\<rparr>)) =
     map_sum id observable_read (readBitW_devAddr n dev devAddr' regAddr bitNum dataW timeout' w
       (s\<lparr>readTimeout := t'\<rparr>)) \<and>
   map_sum id observable_read (readBits_devAddr n dev devAddr regAddr bitStart len data timeout b
       (s\<lparr>readTimeout := t\<rparr>)) =
     map_sum id observable_read (readBits_devAddr n dev devAddr' regAddr bitStart len data timeout' b
       (s\<lparr>readTimeout := t'\<rparr>)) \<and>
   map_sum id observable_read (readBitsW_devAddr n dev devAddr regAddr bitStart len dataW timeout w
       (s\<lparr>readTimeout := t\<rparr>)) =
     map_sum id observable_read (readBitsW_devAddr n dev devAddr' regAddr bitStart len dataW timeout' w
       (s\<lparr>readTimeout := t'\<rparr>)) \<and>
   observable_read (readByte_devAddr n dev devAddr regAddr buf timeout
       (s\<lparr>readTimeout := t\<rparr>)) =
     observable_read (readByte_devAddr n dev devAddr' regAddr buf timeout'
       (s\<lparr>readTimeout := t'\<rparr>)) \<and>
   observable_read (readWord_devAddr n dev devAddr regAddr bufW timeout
       (s\<lparr>readTimeout := t\<rparr>)) =
     observable_read (readWord_devAddr n dev devAddr' regAddr bufW timeout'
       (s\<lparr>readTimeout := t'\<rparr>)) \<and>
   observable_read (readBytes_devAddr n dev devAddr regAddr len buf timeout
       (s\<lparr>readTimeout := t\<rparr>)) =
     observable_read (readBytes_devAddr n dev devAddr' regAddr len buf timeout'
       (s\<lparr>readTimeout := t'\<rparr>)) \<and>
   observable_read (readWords_devAddr n dev devAddr regAddr len bufW timeout
       (s\<lparr>readTimeout := t\<rparr>)) =
     observable_read (readWords_devAddr n dev devAddr' regAddr len bufW timeout'
       (s\<lparr>readTimeout := t'\<rparr>)) \<and>
   map_sum id observable_write (writeBit_devAddr n dev devAddr regAddr bitNum data b
       (s\<lparr>readTimeout := t\<rparr>)) =
     map_sum id observable_write (writeBit_devAddr n dev devAddr' regAddr bitNum data b
       (s\<lparr>readTimeout := t'\<rparr>)) \<and>
   map_sum id observable_write (writeBitW_devAddr n dev devAddr regAddr bitNum dataW w
       (s\<lparr>readTimeout := t\<rparr>)) =
     map_sum id observable_write (writeBitW_devAddr n dev devAddr' regAddr bitNum dataW w
       (s\<lparr>readTimeout := t'\<rparr>)) \<and>
   map_sum id observable_write (writeBits_devAddr n dev devAddr regAddr bitStart len data b
       (s\<lparr>readTimeout := t\<rparr>)) =
     map_sum id observable_write (writeBits_devAddr n dev devAddr' regAddr bitStart len data b
       (s\<lparr>readTimeout := t'\<rparr>)) \<and>
   map_sum id observable_write (writeBitsW_devAddr n dev devAddr regAddr bitStart len dataW w
       (s\<lparr>readTimeout := t\<rparr>)) =
     map_sum id observable_write (writeBitsW_devAddr n dev devAddr' regAddr bitStart len dataW w
       (s\<lparr>readTimeout := t'\<rparr>)) \<and>
   observable_write (writeByte_devAddr dev devAddr regAddr data (s\<lparr>readTimeout := t\<rparr>)) =
     observable_write (writeByte_devAddr dev devAddr' regAddr data (s\<lparr>readTimeout := t'\<rparr>)) \<and>
   observable_write (writeWord_devAddr dev devAddr regAddr dataW (s\<lparr>readTimeout := t\<rparr>)) =
     observable_write (writeWord_devAddr dev devAddr' regAddr dataW (s\<lparr>readTimeout := t'\<rparr>)) \<and>
   observable_write (writeBytes_devAddr dev devAddr regAddr len buf (s\<lparr>readTimeout := t\<rparr>)) =
     observable_write (writeBytes_devAddr dev devAddr' regAddr len buf
       (s\<lparr>readTimeout := t'\<rparr>)) \<and>
   observable_write (writeWords_devAddr dev devAddr regAddr len bufW (s\<lparr>readTimeout := t\<rparr>)) =
     observable_write (writeWords_devAddr dev devAddr' regAddr len bufW
       (s\<lparr>readTimeout := t'\<rparr>))"
  unfolding devAddr_defs timeout_ignored observable_read_timeout observable_write_timeout
    observable_read_fault observable_write_fault
  by simp

end
